theory Spec2Isabelle
  imports Main "HOL-Library.Multiset" "HOL-Library.Char_ord" "HOL-Library.List_Lexorder"
    "HOL-Library.Word" "HOL-Library.AList"
begin

section \<open>Team names as URL slugs\<close>

text \<open>
  Go strings are byte sequences; a \<^typ>\<open>string\<close> is the list of their bytes.
  The regular expression \<^verbatim>\<open>[^a-z0-9]+\<close> of \<^verbatim>\<open>slug\<close> matches maximal runs of
  runes outside the class. Every byte of a rune that is not ASCII (and every byte that
  is not valid UTF-8, which the regexp package reads as a rune of width one) lies
  outside the class, so the runs of runes are exactly the maximal runs of bytes outside
  the class.
\<close>

definition isSlugChar :: "char \<Rightarrow> bool" where
  "isSlugChar c \<longleftrightarrow>
     ((97::nat) \<le> of_char c \<and> of_char c \<le> (122::nat)) \<or>
     ((48::nat) \<le> of_char c \<and> of_char c \<le> (57::nat))"

text \<open>\<^verbatim>\<open>re.ReplaceAllString(s, "-")\<close>: each maximal run becomes one dash.\<close>

function replaceAllString :: "string \<Rightarrow> string" where
  "replaceAllString [] = []"
| "replaceAllString (c # cs) =
     (if isSlugChar c then c # replaceAllString cs
      else CHR ''-'' # replaceAllString (dropWhile (\<lambda>d. \<not> isSlugChar d) cs))"
  by pat_completeness auto
termination
  by (relation "measure length") (auto simp: length_dropWhile_le less_Suc_eq_le)

text \<open>\<^verbatim>\<open>strings.Trim(s, "-")\<close>: all leading and trailing dashes are cut.\<close>

definition trimDash :: "string \<Rightarrow> string" where
  "trimDash s = rev (dropWhile (\<lambda>c. c = CHR ''-'') (rev (dropWhile (\<lambda>c. c = CHR ''-'') s)))"

text \<open>
  \<^verbatim>\<open>strings.ToLower\<close> belongs to Go's standard library and follows the Unicode tables
  (the Kelvin sign, three bytes, becomes the letter k). It is a parameter of the model;
  \<open>asciiToLower\<close> is what it does on a string of ASCII bytes.
\<close>

definition asciiLowerChar :: "char \<Rightarrow> char" where
  "asciiLowerChar c =
     (if (65::nat) \<le> of_char c \<and> of_char c \<le> (90::nat) then char_of (of_char c + (32::nat)) else c)"

definition asciiToLower :: "string \<Rightarrow> string" where
  "asciiToLower s = map asciiLowerChar s"

definition isASCII :: "string \<Rightarrow> bool" where
  "isASCII s \<longleftrightarrow> list_all (\<lambda>c. of_char c < (128::nat)) s"

definition toLowerOnASCII :: "(string \<Rightarrow> string) \<Rightarrow> bool" where
  "toLowerOnASCII toLower \<longleftrightarrow> (\<forall>s. isASCII s \<longrightarrow> toLower s = asciiToLower s)"

definition slug :: "(string \<Rightarrow> string) \<Rightarrow> string \<Rightarrow> string" where
  "slug toLower s = trimDash (replaceAllString (toLower s))"

section \<open>The configuration model\<close>

text \<open>
  A Go slice is either \<^verbatim>\<open>nil\<close> or a sequence; \<^verbatim>\<open>reflect.DeepEqual\<close> tells a nil
  slice from an empty one, so the fields that are compared keep the difference:
  \<open>None\<close> is the nil slice.
\<close>

type_synonym 'a slice = "'a list option"

definition elems :: "'a slice \<Rightarrow> 'a list" where
  "elems s = (case s of None \<Rightarrow> [] | Some xs \<Rightarrow> xs)"

text \<open>\<^verbatim>\<open>append(s, x)\<close> on a slice that may be nil.\<close>

definition appendSlice :: "'a slice \<Rightarrow> 'a \<Rightarrow> 'a slice" where
  "appendSlice s x = Some (elems s @ [x])"

text \<open>\<^verbatim>\<open>sort.Strings\<close>: bytewise lexicographic order; a nil slice stays nil.\<close>

definition sortStrings :: "string slice \<Rightarrow> string slice" where
  "sortStrings s = map_option sort s"

text \<open>
  Modelled from the spec: package \<^verbatim>\<open>config\<close> is not among the sources. Its types
  follow the spec's data model (a team has an identifier, a member list and a review
  assignment policy with an enabled flag, an algorithm, a notify flag, a member count
  and the excluded members; a member has an identifier and a display name), with the
  field names under which the source reads and writes them. Field names that two Go
  structs share carry the struct's name in front.
\<close>

record ExcludedMember =
  Login :: string

record User =
  User_ID :: string
  User_Name :: string

record CodeReviewAssignment =
  Algorithm :: string
  Enabled :: bool
  ExcludedMembers :: "ExcludedMember slice"
  NotifyTeam :: bool
  TeamMemberCount :: "64 word"

record TeamConfig =
  ID :: string
  Members :: "string slice"
  CodeReviewAssignment :: CodeReviewAssignment

text \<open>
  A Go map that the code ranges over is the list of its entries, with distinct keys.
  The order of the list carries no meaning: each \<^verbatim>\<open>range\<close> asks the runtime for an
  order of its own (see \<open>runtime\<close> below). Reading is \<^const>\<open>map_of\<close>, writing is
  \<^const>\<open>AList.update\<close>.
\<close>

record Config =
  Organization :: string
  Teams :: "(string \<times> TeamConfig) list"
  Config_Members :: "string \<rightharpoonup> User"
  ExcludeCRAFromAllTeams :: "string list"

definition zeroCodeReviewAssignment :: CodeReviewAssignment where
  "zeroCodeReviewAssignment =
     \<lparr>Algorithm = [], Enabled = False, ExcludedMembers = None, NotifyTeam = False,
      TeamMemberCount = 0\<rparr>"

definition zeroTeamConfig :: TeamConfig where
  "zeroTeamConfig = \<lparr>ID = [], Members = None, CodeReviewAssignment = zeroCodeReviewAssignment\<rparr>"

text \<open>Indexing a Go map at a missing key gives the zero value.\<close>

definition teamAt :: "(string \<times> TeamConfig) list \<Rightarrow> string \<Rightarrow> TeamConfig" where
  "teamAt ts name = (case map_of ts name of None \<Rightarrow> zeroTeamConfig | Some t \<Rightarrow> t)"

text \<open>
  A \<^verbatim>\<open>map[K]struct{}\<close> used as a set: the list of its keys, each once.
\<close>

definition keyInsert :: "'a \<Rightarrow> 'a list \<Rightarrow> 'a list" where
  "keyInsert x ks = (if x \<in> set ks then ks else ks @ [x])"

definition keyDelete :: "'a \<Rightarrow> 'a list \<Rightarrow> 'a list" where
  "keyDelete x ks = removeAll x ks"

section \<open>The remote side\<close>

text \<open>The GraphQL query result (\<^verbatim>\<open>queryResult\<close>, \<^verbatim>\<open>Teams\<close>, \<^verbatim>\<open>team\<close>, \<^verbatim>\<open>teamMember\<close>).\<close>

record pageInfo =
  EndCursor :: string
  HasNextPage :: bool

record teamMember =
  member_ID :: string
  member_Login :: string
  member_Name :: string

record team =
  MembersNodes :: "teamMember list"
  MembersPageInfo :: pageInfo
  team_ID :: string
  DatabaseID :: "32 word"
  team_Name :: string
  ReviewRequestDelegationEnabled :: bool
  ReviewRequestDelegationAlgorithm :: string
  ReviewRequestDelegationMemberCount :: "32 word"
  ReviewRequestDelegationNotifyTeam :: bool

record queryResult =
  Nodes :: "team list"
  PageInfo :: pageInfo

text \<open>
  The variables of one query: \<open>None\<close> is the null cursor, which asks for the first
  page. \<^verbatim>\<open>query\<close> fills both in as null unless the caller's map sets them.
\<close>

record variables =
  teamsCursor :: "string option"
  membersCursor :: "string option"

record UpdateTeamReviewAssignmentInput =
  input_Algorithm :: string
  input_Enabled :: bool
  ExcludedTeamMemberIDs :: "string list"
  input_NotifyTeam :: bool
  input_TeamMemberCount :: "32 word"
  input_ID :: string

text \<open>The mutation calls, with their arguments (organization, team slug, user, role).\<close>

datatype call =
    AddTeamMembershipBySlug string string string string
  | RemoveTeamMembershipBySlug string string string
  | UpdateTeamReviewAssignment UpdateTeamReviewAssignmentInput

text \<open>What the code prints, one constructor for each format string.\<close>

datatype message =
    MsgAddingMember string string
  | MsgRemovingMember string string
  | MsgOutOfSync string
  | MsgGoingToSubmit
  | MsgTeam string
  | MsgAddingMembers "string list"
  | MsgRemovingMembers "string list"
  | ErrUnableToSyncTeam string string
  | MsgExcludingMembers string
  | ErrUnableToSyncExcluded string string
  | ErrUserNotFound string string

datatype event = Remote call | Stdout message | Stderr message

definition remoteCalls :: "event list \<Rightarrow> call list" where
  "remoteCalls w = concat (map (\<lambda>e. case e of Remote c \<Rightarrow> [c] | _ \<Rightarrow> []) w)"

text \<open>
  The manager: the organization, and the two clients as what they answer. A query is
  answered from its variables. A mutation is answered from the events so far and the
  call: \<open>None\<close> is success, \<open>Some err\<close> the error.
\<close>

record Manager =
  owner :: string
  gqlQuery :: "variables \<Rightarrow> string + queryResult"
  respond :: "event list \<Rightarrow> call \<Rightarrow> string option"

section \<open>Fetching the remote state\<close>

datatype error =
    QueryFailed string
  | RequeryTeamsFailed string
  | RequeryMembersFailed string
  | TeamNotFound string
  | ConfirmationFailed string

text \<open>\<^verbatim>\<open>Teams.WithID\<close>: the first node with the identifier.\<close>

fun WithID :: "team list \<Rightarrow> string \<Rightarrow> error + team" where
  "WithID [] i = Inl (TeamNotFound i)"
| "WithID (n # ns) i = (if team_ID n = i then Inr n else WithID ns i)"

text \<open>
  The team configuration of a team met for the first time. The review assignment is
  filled in only when delegation is enabled; member lists start as the nil slice.
\<close>

definition newTeamConfig :: "team \<Rightarrow> TeamConfig" where
  "newTeamConfig t =
     \<lparr>ID = team_ID t, Members = None,
      CodeReviewAssignment =
        (if ReviewRequestDelegationEnabled t then
           \<lparr>Algorithm = ReviewRequestDelegationAlgorithm t,
            Enabled = ReviewRequestDelegationEnabled t,
            ExcludedMembers = None,
            NotifyTeam = ReviewRequestDelegationNotifyTeam t,
            TeamMemberCount = scast (ReviewRequestDelegationMemberCount t)\<rparr>
         else zeroCodeReviewAssignment)\<rparr>"

text \<open>The body of the loop over the members of one page.\<close>

definition addMember :: "teamMember \<Rightarrow> TeamConfig \<times> Config \<Rightarrow> TeamConfig \<times> Config" where
  "addMember m st =
     (case st of (teamCfg, c) \<Rightarrow>
        (teamCfg\<lparr>Members := appendSlice (Members teamCfg) (member_Login m)\<rparr>,
         c\<lparr>Config_Members := (Config_Members c)
              (member_Login m \<mapsto> \<lparr>User_ID = member_ID m, User_Name = member_Name m\<rparr>)\<rparr>))"

text \<open>
  One member page of team \<open>t\<close>: the members are appended, the list is sorted and the team
  is stored under its name.
\<close>

definition storeMembersPage :: "team \<Rightarrow> team \<Rightarrow> TeamConfig \<Rightarrow> Config \<Rightarrow> TeamConfig \<times> Config" where
  "storeMembersPage t teamNode teamCfg c =
     (case fold addMember (MembersNodes teamNode) (teamCfg, c) of (teamCfg1, c1) \<Rightarrow>
        (teamCfg1\<lparr>Members := sortStrings (Members teamCfg1)\<rparr>,
         c1\<lparr>Teams := AList.update (team_Name t)
                (teamCfg1\<lparr>Members := sortStrings (Members teamCfg1)\<rparr>) (Teams c1)\<rparr>))"

text \<open>
  The inner loop of \<^verbatim>\<open>GetCurrentConfig\<close>, over the member pages of team \<open>t\<close>. The first
  round reads the team page \<open>result\<close> itself; each later round queries again, with the
  member cursor of the page before. The loop runs as long as the answers report a next
  page: a run that never ends is \<open>None\<close>.
\<close>

partial_function (option) membersLoop ::
  "Manager \<Rightarrow> queryResult \<Rightarrow> team \<Rightarrow> bool \<Rightarrow> TeamConfig \<Rightarrow> Config \<Rightarrow> variables \<Rightarrow>
   (error + Config \<times> variables) option" where
  "membersLoop tm result t requeryMembers teamCfg c vars =
     (case (if requeryMembers then
              (case gqlQuery tm vars of Inl err \<Rightarrow> Inl (RequeryMembersFailed err)
               | Inr r \<Rightarrow> Inr r)
            else Inr result) of
        Inl err \<Rightarrow> Some (Inl err)
      | Inr innerResult \<Rightarrow>
          (case WithID (Nodes innerResult) (team_ID t) of
             Inl err \<Rightarrow> Some (Inl err)
           | Inr teamNode \<Rightarrow>
               (case storeMembersPage t teamNode teamCfg c of (teamCfg2, c2) \<Rightarrow>
                  if \<not> HasNextPage (MembersPageInfo teamNode) then Some (Inr (c2, vars))
                  else membersLoop tm result t True teamCfg2 c2
                         (vars\<lparr>membersCursor := Some (EndCursor (MembersPageInfo teamNode))\<rparr>))))"

text \<open>The loop over the teams of one team page.\<close>

fun teamNodesLoop ::
  "Manager \<Rightarrow> queryResult \<Rightarrow> team list \<Rightarrow> Config \<Rightarrow> variables \<Rightarrow>
   (error + Config \<times> variables) option" where
  "teamNodesLoop tm result [] c vars = Some (Inr (c, vars))"
| "teamNodesLoop tm result (t # ts) c vars =
     (case membersLoop tm result t False
             (case map_of (Teams c) (team_Name t) of
                Some teamCfg \<Rightarrow> teamCfg | None \<Rightarrow> newTeamConfig t) c vars of
        None \<Rightarrow> None
      | Some (Inl err) \<Rightarrow> Some (Inl err)
      | Some (Inr (c1, vars1)) \<Rightarrow> teamNodesLoop tm result ts c1 vars1)"

text \<open>
  The outer loop, over the team pages. When it moves to the next team page it sets the
  team cursor and clears the member cursor.
\<close>

partial_function (option) teamsLoop ::
  "Manager \<Rightarrow> bool \<Rightarrow> queryResult \<Rightarrow> Config \<Rightarrow> variables \<Rightarrow> (error + Config) option" where
  "teamsLoop tm requeryTeams result c vars =
     (case (if requeryTeams then
              (case gqlQuery tm vars of Inl err \<Rightarrow> Inl (RequeryTeamsFailed err)
               | Inr r \<Rightarrow> Inr r)
            else Inr result) of
        Inl err \<Rightarrow> Some (Inl err)
      | Inr result1 \<Rightarrow>
          (case teamNodesLoop tm result1 (Nodes result1) c vars of
             None \<Rightarrow> None
           | Some (Inl err) \<Rightarrow> Some (Inl err)
           | Some (Inr (c1, vars1)) \<Rightarrow>
               if \<not> HasNextPage (PageInfo result1) then Some (Inr c1)
               else teamsLoop tm True result1 c1
                      (vars1\<lparr>teamsCursor := Some (EndCursor (PageInfo result1)),
                             membersCursor := None\<rparr>)))"

declare membersLoop.simps [code] teamsLoop.simps [code]

definition GetCurrentConfig :: "Manager \<Rightarrow> (error + Config) option" where
  "GetCurrentConfig tm =
     (case gqlQuery tm \<lparr>teamsCursor = None, membersCursor = None\<rparr> of
        Inl err \<Rightarrow> Some (Inl (QueryFailed err))
      | Inr result \<Rightarrow>
          teamsLoop tm False result
            \<lparr>Organization = owner tm, Teams = [], Config_Members = Map.empty,
             ExcludeCRAFromAllTeams = []\<rparr>
            \<lparr>teamsCursor = None, membersCursor = None\<rparr>)"

section \<open>The surroundings of a run\<close>

text \<open>A pending change of one team (\<^verbatim>\<open>teamChange\<close> in \<^verbatim>\<open>SyncTeams\<close>).\<close>

record teamChange =
  add :: "string list"
  remove :: "string list"

text \<open>
  What the code leaves to its surroundings: the operator's answer to a prompt
  (\<^verbatim>\<open>terminal.AskForConfirmation\<close>), \<^verbatim>\<open>strings.ToLower\<close>, and the order in which each
  \<^verbatim>\<open>range\<close> over a map yields the entries. Go leaves that order open, so every such
  loop has an order of its own; the one over a team's member set may differ from team
  to team.
\<close>

record runtime =
  AskForConfirmation :: "string \<Rightarrow> string + bool"
  ToLower :: "string \<Rightarrow> string"
  rangeTeams :: "(string \<times> TeamConfig) list \<Rightarrow> (string \<times> TeamConfig) list"
  rangeTeamNames :: "(string \<times> TeamConfig) list \<Rightarrow> (string \<times> TeamConfig) list"
  rangeChangesPrint :: "(string \<times> teamChange) list \<Rightarrow> (string \<times> teamChange) list"
  rangeChangesApply :: "(string \<times> teamChange) list \<Rightarrow> (string \<times> teamChange) list"
  rangeTeamMembers :: "string \<Rightarrow> string list \<Rightarrow> string list"
  rangeIDs :: "string \<Rightarrow> string list \<Rightarrow> string list"

text \<open>A legal order yields every entry once.\<close>

definition legalOrder :: "('a list \<Rightarrow> 'a list) \<Rightarrow> bool" where
  "legalOrder f \<longleftrightarrow> (\<forall>xs. mset (f xs) = mset xs)"

definition legalRuntime :: "runtime \<Rightarrow> bool" where
  "legalRuntime rt \<longleftrightarrow>
     legalOrder (rangeTeams rt) \<and> legalOrder (rangeTeamNames rt) \<and>
     legalOrder (rangeChangesPrint rt) \<and> legalOrder (rangeChangesApply rt) \<and>
     (\<forall>name. legalOrder (rangeTeamMembers rt name)) \<and>
     (\<forall>name. legalOrder (rangeIDs rt name))"

section \<open>Resolving the excluded users\<close>

text \<open>
  \<^verbatim>\<open>getExcludedUsers\<close>: the identities go into a set; a login of the team's own list
  that the directory does not know is printed and skipped, one of the organization's
  list is skipped without a word. The result lists the set in the order \<open>order\<close> of the
  final \<^verbatim>\<open>range\<close>. The messages are returned with it.
\<close>

definition excludeTeamMember ::
  "string \<Rightarrow> (string \<rightharpoonup> User) \<Rightarrow> ExcludedMember \<Rightarrow> message list \<times> string list \<Rightarrow>
   message list \<times> string list" where
  "excludeTeamMember teamName members member st =
     (case st of (out, m) \<Rightarrow>
        (case members (Login member) of
           None \<Rightarrow> (out @ [ErrUserNotFound (Login member) teamName], m)
         | Some user \<Rightarrow> (out, keyInsert (User_ID user) m)))"

definition excludeAllTeams ::
  "(string \<rightharpoonup> User) \<Rightarrow> string \<Rightarrow> message list \<times> string list \<Rightarrow> message list \<times> string list" where
  "excludeAllTeams members member st =
     (case st of (out, m) \<Rightarrow>
        (case members member of
           None \<Rightarrow> (out, m)
         | Some user \<Rightarrow> (out, keyInsert (User_ID user) m)))"

definition getExcludedUsers ::
  "(string list \<Rightarrow> string list) \<Rightarrow> string \<Rightarrow> (string \<rightharpoonup> User) \<Rightarrow> ExcludedMember list \<Rightarrow>
   string list \<Rightarrow> message list \<times> string list" where
  "getExcludedUsers order teamName members excTeamMembers excAllTeams =
     (case fold (excludeAllTeams members) excAllTeams
             (fold (excludeTeamMember teamName members) excTeamMembers ([], [])) of
        (out, m) \<Rightarrow> (out, order m))"

section \<open>Synchronising the teams\<close>

text \<open>
  Modelled from the spec: package \<^verbatim>\<open>slices\<close> is not among the sources. The spec has
  \<open>toAdd = localMembers - remoteMembers\<close> and \<open>toRemove = remoteMembers - localMembers\<close>,
  set differences in which the order does not matter; \<open>NotIn a b\<close> keeps the elements
  of \<open>a\<close> that \<open>b\<close> does not have.
\<close>

definition NotIn :: "string list \<Rightarrow> string list \<Rightarrow> string list" where
  "NotIn a b = filter (\<lambda>x. x \<notin> set b) a"

text \<open>
  \<^verbatim>\<open>SyncTeamMembers\<close>: the additions, then the removals; the first call that fails ends
  it. Every call is recorded, with the line printed before it.
\<close>

fun addMembers ::
  "Manager \<Rightarrow> runtime \<Rightarrow> string \<Rightarrow> string list \<Rightarrow> event list \<Rightarrow> event list \<times> string option" where
  "addMembers tm rt teamName [] w = (w, None)"
| "addMembers tm rt teamName (user # rest) w =
     (case respond tm (w @ [Stdout (MsgAddingMember user teamName)])
             (AddTeamMembershipBySlug (owner tm) (slug (ToLower rt) teamName) user ''member'') of
        Some err \<Rightarrow>
          (w @ [Stdout (MsgAddingMember user teamName),
                Remote (AddTeamMembershipBySlug (owner tm) (slug (ToLower rt) teamName) user ''member'')],
           Some err)
      | None \<Rightarrow>
          addMembers tm rt teamName rest
            (w @ [Stdout (MsgAddingMember user teamName),
                  Remote (AddTeamMembershipBySlug (owner tm) (slug (ToLower rt) teamName) user ''member'')]))"

fun removeMembers ::
  "Manager \<Rightarrow> runtime \<Rightarrow> string \<Rightarrow> string list \<Rightarrow> event list \<Rightarrow> event list \<times> string option" where
  "removeMembers tm rt teamName [] w = (w, None)"
| "removeMembers tm rt teamName (user # rest) w =
     (case respond tm (w @ [Stdout (MsgRemovingMember user teamName)])
             (RemoveTeamMembershipBySlug (owner tm) (slug (ToLower rt) teamName) user) of
        Some err \<Rightarrow>
          (w @ [Stdout (MsgRemovingMember user teamName),
                Remote (RemoveTeamMembershipBySlug (owner tm) (slug (ToLower rt) teamName) user)],
           Some err)
      | None \<Rightarrow>
          removeMembers tm rt teamName rest
            (w @ [Stdout (MsgRemovingMember user teamName),
                  Remote (RemoveTeamMembershipBySlug (owner tm) (slug (ToLower rt) teamName) user)]))"

definition SyncTeamMembers ::
  "Manager \<Rightarrow> runtime \<Rightarrow> string \<Rightarrow> string list \<Rightarrow> string list \<Rightarrow> event list \<Rightarrow>
   event list \<times> string option" where
  "SyncTeamMembers tm rt teamName adds removes w =
     (case addMembers tm rt teamName adds w of
        (w1, Some err) \<Rightarrow> (w1, Some err)
      | (w1, None) \<Rightarrow> removeMembers tm rt teamName removes w1)"

text \<open>
  \<^verbatim>\<open>SyncTeamReviewAssignment\<close> writes the team's identifier into its copy of the input
  and sends the mutation.
\<close>

definition SyncTeamReviewAssignment ::
  "Manager \<Rightarrow> string \<Rightarrow> UpdateTeamReviewAssignmentInput \<Rightarrow> event list \<Rightarrow> event list \<times> string option" where
  "SyncTeamReviewAssignment tm teamID input w =
     (w @ [Remote (UpdateTeamReviewAssignment (input\<lparr>input_ID := teamID\<rparr>))],
      respond tm w (UpdateTeamReviewAssignment (input\<lparr>input_ID := teamID\<rparr>)))"

text \<open>
  The body of the first loop of \<^verbatim>\<open>SyncTeams\<close>, for one local team. \<open>localTeam\<close> is the
  loop's own copy of the map entry: the first component of the result is that copy as
  the body leaves it, the map itself is not written. \<^verbatim>\<open>reflect.DeepEqual\<close> is equality
  of the two records. The text of the comparison that is printed comes from package
  \<^verbatim>\<open>comparator\<close> and is left out of the message.
\<close>

definition diffTeam ::
  "Config \<Rightarrow> string \<times> TeamConfig \<Rightarrow> event list \<times> (string \<times> teamChange) list \<Rightarrow>
   TeamConfig \<times> event list \<times> (string \<times> teamChange) list" where
  "diffTeam upstreamCfg entry st =
     (case entry of (localTeamName, localTeam0) \<Rightarrow>
      case st of (w, teamChanges) \<Rightarrow>
        (let backExcludedMembers = ExcludedMembers (CodeReviewAssignment localTeam0);
             localTeam = localTeam0\<lparr>CodeReviewAssignment :=
                           (CodeReviewAssignment localTeam0)\<lparr>ExcludedMembers := None\<rparr>\<rparr>;
             upstreamTeam = teamAt (Teams upstreamCfg) localTeamName;
             restored = localTeam\<lparr>CodeReviewAssignment :=
                           (CodeReviewAssignment localTeam)\<lparr>ExcludedMembers := backExcludedMembers\<rparr>\<rparr>
         in if localTeam \<noteq> upstreamTeam then
              (let toAdd = NotIn (elems (Members localTeam)) (elems (Members upstreamTeam));
                   toDel = NotIn (elems (Members upstreamTeam)) (elems (Members localTeam))
               in (restored, w @ [Stdout (MsgOutOfSync localTeamName)],
                   if toAdd \<noteq> [] \<or> toDel \<noteq> []
                   then AList.update localTeamName \<lparr>add = toAdd, remove = toDel\<rparr> teamChanges
                   else teamChanges))
            else (restored, w, teamChanges)))"

definition diffPass ::
  "Config \<Rightarrow> (string \<times> TeamConfig) list \<Rightarrow> event list \<times> (string \<times> teamChange) list" where
  "diffPass upstreamCfg entries = fold (\<lambda>entry st. snd (diffTeam upstreamCfg entry st)) entries ([], [])"

text \<open>
  The body of the loop that applies the changes, for one team. A failed synchronisation
  is printed and the team is left as it is. Otherwise the member set is built from the
  local list, the removals are deleted, the additions are inserted, and the set is
  written back in the order of its \<^verbatim>\<open>range\<close>.
\<close>

definition applyTeam ::
  "Manager \<Rightarrow> runtime \<Rightarrow> bool \<Rightarrow> string \<times> teamChange \<Rightarrow> Config \<times> event list \<Rightarrow>
   Config \<times> event list" where
  "applyTeam tm rt dryRun entry st =
     (case entry of (teamName, teamCfg) \<Rightarrow>
      case st of (localCfg, w) \<Rightarrow>
        (case (if dryRun then (w, None)
               else SyncTeamMembers tm rt teamName (add teamCfg) (remove teamCfg) w) of
           (w1, Some err) \<Rightarrow> (localCfg, w1 @ [Stderr (ErrUnableToSyncTeam teamName err)])
         | (w1, None) \<Rightarrow>
             (localCfg\<lparr>Teams := AList.update teamName
                ((teamAt (Teams localCfg) teamName)
                   \<lparr>Members := Some (rangeTeamMembers rt teamName
                      (fold keyInsert (add teamCfg)
                        (fold keyDelete (remove teamCfg)
                          (fold keyInsert (elems (Members (teamAt (Teams localCfg) teamName))) []))))\<rparr>)
                (Teams localCfg)\<rparr>,
              w1)))"

definition printChange :: "string \<times> teamChange \<Rightarrow> event list" where
  "printChange entry =
     (case entry of (teamName, teamCfg) \<Rightarrow>
        [Stdout (MsgTeam teamName), Stdout (MsgAddingMembers (add teamCfg)),
         Stdout (MsgRemovingMembers (remove teamCfg))])"

text \<open>
  The membership pass: the changes are printed, confirmed and applied. The result is the
  error (if the prompt fails), the local configuration and the events.
\<close>

definition printChanges :: "runtime \<Rightarrow> (string \<times> teamChange) list \<Rightarrow> event list \<Rightarrow> event list" where
  "printChanges rt teamChanges w =
     w @ [Stdout MsgGoingToSubmit] @ concat (map printChange (rangeChangesPrint rt teamChanges))"

definition membershipPass ::
  "Manager \<Rightarrow> runtime \<Rightarrow> (string \<times> teamChange) list \<Rightarrow> Config \<Rightarrow> bool \<Rightarrow> bool \<Rightarrow> event list \<Rightarrow>
   error option \<times> Config \<times> event list" where
  "membershipPass tm rt teamChanges localCfg force dryRun w =
     (if teamChanges \<noteq> [] then
        (case (if force then Inr True else AskForConfirmation rt ''Continue?'') of
           Inl err \<Rightarrow> (Some (ConfirmationFailed err), localCfg, printChanges rt teamChanges w)
         | Inr yes \<Rightarrow>
             if yes then
               (case fold (applyTeam tm rt dryRun) (rangeChangesApply rt teamChanges)
                       (localCfg, printChanges rt teamChanges w) of
                  (localCfg1, w1) \<Rightarrow> (None, localCfg1, w1))
             else (None, localCfg, printChanges rt teamChanges w))
      else (None, localCfg, w))"

text \<open>The body of the loop over the sorted team names in the second pass.\<close>

definition reviewAssignmentInput ::
  "CodeReviewAssignment \<Rightarrow> string list \<Rightarrow> UpdateTeamReviewAssignmentInput" where
  "reviewAssignmentInput cra usersIDs =
     \<lparr>input_Algorithm = Algorithm cra, input_Enabled = Enabled cra,
      ExcludedTeamMemberIDs = usersIDs, input_NotifyTeam = NotifyTeam cra,
      input_TeamMemberCount = ucast (TeamMemberCount cra), input_ID = []\<rparr>"

definition updateReviewAssignment ::
  "Manager \<Rightarrow> runtime \<Rightarrow> bool \<Rightarrow> Config \<Rightarrow> string \<Rightarrow> event list \<Rightarrow> event list" where
  "updateReviewAssignment tm rt dryRun localCfg teamName w =
     (case getExcludedUsers (rangeIDs rt teamName) teamName (Config_Members localCfg)
             (elems (ExcludedMembers (CodeReviewAssignment (teamAt (Teams localCfg) teamName))))
             (ExcludeCRAFromAllTeams localCfg) of
        (out, usersIDs) \<Rightarrow>
          if \<not> dryRun then
            (case SyncTeamReviewAssignment tm (ID (teamAt (Teams localCfg) teamName))
                    (reviewAssignmentInput (CodeReviewAssignment (teamAt (Teams localCfg) teamName)) usersIDs)
                    (w @ map Stdout out @ [Stdout (MsgExcludingMembers teamName)]) of
               (w1, Some err) \<Rightarrow> w1 @ [Stderr (ErrUnableToSyncExcluded teamName err)]
             | (w1, None) \<Rightarrow> w1)
          else w @ map Stdout out @ [Stdout (MsgExcludingMembers teamName)])"

definition policyPass ::
  "Manager \<Rightarrow> runtime \<Rightarrow> Config \<Rightarrow> bool \<Rightarrow> bool \<Rightarrow> event list \<Rightarrow> error + event list" where
  "policyPass tm rt localCfg force dryRun w =
     (case (if force then Inr True
            else AskForConfirmation rt ''Do you want to update CodeReviewAssignments?'') of
        Inl err \<Rightarrow> Inl (ConfirmationFailed err)
      | Inr yes \<Rightarrow>
          if yes then
            Inr (fold (updateReviewAssignment tm rt dryRun localCfg)
                   (sort (map fst (rangeTeamNames rt (Teams localCfg)))) w)
          else Inr w)"

text \<open>
  The result of \<^verbatim>\<open>SyncTeams\<close>: the error it returns (\<open>None\<close> is the nil error, with which
  it returns the pointer to the local configuration), the local configuration as the
  call leaves it in memory, and the events of the run.
\<close>

record result =
  returnedError :: "error option"
  localConfig :: Config
  events :: "event list"

text \<open>\<^verbatim>\<open>SyncTeams\<close> after the remote state has been fetched.\<close>

definition syncWith :: "Manager \<Rightarrow> runtime \<Rightarrow> Config \<Rightarrow> Config \<Rightarrow> bool \<Rightarrow> bool \<Rightarrow> result" where
  "syncWith tm rt upstreamCfg localCfg force dryRun =
     (case diffPass upstreamCfg (rangeTeams rt (Teams localCfg)) of (w0, teamChanges) \<Rightarrow>
        (case membershipPass tm rt teamChanges localCfg force dryRun w0 of
           (Some err, localCfg1, w1) \<Rightarrow>
             \<lparr>returnedError = Some err, localConfig = localCfg1, events = w1\<rparr>
         | (None, localCfg1, w1) \<Rightarrow>
             (case policyPass tm rt localCfg1 force dryRun w1 of
                Inl err \<Rightarrow> \<lparr>returnedError = Some err, localConfig = localCfg1, events = w1\<rparr>
              | Inr w2 \<Rightarrow> \<lparr>returnedError = None, localConfig = localCfg1, events = w2\<rparr>)))"

definition SyncTeams :: "Manager \<Rightarrow> runtime \<Rightarrow> Config \<Rightarrow> bool \<Rightarrow> bool \<Rightarrow> result option" where
  "SyncTeams tm rt localCfg force dryRun =
     (case GetCurrentConfig tm of
        None \<Rightarrow> None
      | Some (Inl err) \<Rightarrow> Some \<lparr>returnedError = Some err, localConfig = localCfg, events = []\<rparr>
      | Some (Inr upstreamCfg) \<Rightarrow> Some (syncWith tm rt upstreamCfg localCfg force dryRun))"

section \<open>A paginated organization\<close>

text \<open>
  The remote organization as the cursor protocol presents it: a sequence of team pages,
  each team with the sequence of its member pages. A cursor is opaque to the client;
  this server hands out the number of the next page, written as that many letters. One
  member cursor goes with a query and selects the member page of every team of the team
  page, as the GraphQL variable does.
\<close>

type_synonym teamPages = "team \<times> teamMember list list"

definition cursorOf :: "nat \<Rightarrow> string" where
  "cursorOf n = replicate n (CHR ''c'')"

definition pageOf :: "string option \<Rightarrow> nat" where
  "pageOf cur = (case cur of None \<Rightarrow> 0 | Some s \<Rightarrow> length s)"

definition serveMembers :: "nat \<Rightarrow> teamPages \<Rightarrow> team" where
  "serveMembers j td =
     (fst td)\<lparr>MembersNodes := (if j < length (snd td) then snd td ! j else []),
              MembersPageInfo := \<lparr>EndCursor = cursorOf (Suc j), HasNextPage = (Suc j < length (snd td))\<rparr>\<rparr>"

definition serve :: "teamPages list list \<Rightarrow> variables \<Rightarrow> string + queryResult" where
  "serve org vars =
     Inr \<lparr>Nodes = map (serveMembers (pageOf (membersCursor vars)))
                   (if pageOf (teamsCursor vars) < length org
                    then org ! pageOf (teamsCursor vars) else []),
          PageInfo = \<lparr>EndCursor = cursorOf (Suc (pageOf (teamsCursor vars))),
                      HasNextPage = (Suc (pageOf (teamsCursor vars)) < length org)\<rparr>\<rparr>"

text \<open>
  What the snapshot should hold for a team: the configuration of the team with all the
  logins of its member pages, sorted (the nil slice when there is none).
\<close>

definition snapshotTeam :: "teamPages \<Rightarrow> TeamConfig" where
  "snapshotTeam td =
     (newTeamConfig (fst td))
       \<lparr>Members := (if concat (snd td) = [] then None
                    else Some (sort (map member_Login (concat (snd td)))))\<rparr>"

section \<open>Notions used in the statements\<close>

text \<open>
  The change that the first loop records for a local team \<open>lt\<close> named \<open>name\<close>: the two
  differences of the member lists, if one of them is not empty.
\<close>

definition pendingChange :: "Config \<Rightarrow> string \<Rightarrow> TeamConfig \<Rightarrow> teamChange option" where
  "pendingChange upstreamCfg name lt =
     (if NotIn (elems (Members lt)) (elems (Members (teamAt (Teams upstreamCfg) name))) \<noteq> [] \<or>
         NotIn (elems (Members (teamAt (Teams upstreamCfg) name))) (elems (Members lt)) \<noteq> []
      then Some \<lparr>add = NotIn (elems (Members lt)) (elems (Members (teamAt (Teams upstreamCfg) name))),
                remove = NotIn (elems (Members (teamAt (Teams upstreamCfg) name))) (elems (Members lt))\<rparr>
      else None)"

text \<open>The member list that the apply loop writes back for a team.\<close>

definition recomputedMembers :: "runtime \<Rightarrow> string \<Rightarrow> teamChange \<Rightarrow> TeamConfig \<Rightarrow> string list" where
  "recomputedMembers rt teamName teamCfg t =
     rangeTeamMembers rt teamName
       (fold keyInsert (add teamCfg)
         (fold keyDelete (remove teamCfg) (fold keyInsert (elems (Members t)) [])))"

text \<open>
  The fetch of one team, without the queries: the member pages in the order in which
  they are served (a team without member pages is served one empty page), each stored
  as \<open>storeMembersPage\<close> does.
\<close>

definition servedPages :: "teamMember list list \<Rightarrow> teamMember list list" where
  "servedPages pages = (if pages = [] then [[]] else pages)"

definition storePage :: "string \<Rightarrow> teamMember list \<Rightarrow> TeamConfig \<times> Config \<Rightarrow> TeamConfig \<times> Config" where
  "storePage name members st =
     (case fold addMember members st of (teamCfg1, c1) \<Rightarrow>
        (teamCfg1\<lparr>Members := sortStrings (Members teamCfg1)\<rparr>,
         c1\<lparr>Teams := AList.update name
                (teamCfg1\<lparr>Members := sortStrings (Members teamCfg1)\<rparr>) (Teams c1)\<rparr>))"

text \<open>The member list of a team after one more page of members.\<close>

definition pageMembers :: "teamMember list \<Rightarrow> string slice \<Rightarrow> string slice" where
  "pageMembers ms m =
     (if ms = [] then map_option sort m else Some (sort (elems m @ map member_Login ms)))"

definition storeTeam :: "teamPages \<Rightarrow> Config \<Rightarrow> Config" where
  "storeTeam td c =
     snd (fold (storePage (team_Name (fst td))) (servedPages (snd td))
            (case map_of (Teams c) (team_Name (fst td)) of
               Some teamCfg \<Rightarrow> teamCfg | None \<Rightarrow> newTeamConfig (fst td), c))"

subsection \<open>A small organization\<close>

text \<open>
  Team \<open>ops\<close> has the members a and b locally and b and c remotely. Team \<open>dev\<close> is the
  same on both sides but for its excluded members. The directory knows a, b and x.
\<close>

definition exampleLocal :: Config where
  "exampleLocal =
     \<lparr>Organization = ''org'',
      Teams =
        [(''ops'', \<lparr>ID = ''T1'', Members = Some [''a'', ''b''],
            CodeReviewAssignment = zeroCodeReviewAssignment
              \<lparr>ExcludedMembers := Some [\<lparr>Login = ''a''\<rparr>, \<lparr>Login = ''zz''\<rparr>]\<rparr>\<rparr>),
         (''dev'', \<lparr>ID = ''T2'', Members = Some [''x''],
            CodeReviewAssignment = zeroCodeReviewAssignment
              \<lparr>ExcludedMembers := Some [\<lparr>Login = ''x''\<rparr>]\<rparr>\<rparr>)],
      Config_Members =
        [''a'' \<mapsto> \<lparr>User_ID = ''U1'', User_Name = ''A''\<rparr>,
         ''b'' \<mapsto> \<lparr>User_ID = ''U2'', User_Name = ''B''\<rparr>,
         ''x'' \<mapsto> \<lparr>User_ID = ''U3'', User_Name = ''X''\<rparr>],
      ExcludeCRAFromAllTeams = [''b'', ''q'']\<rparr>"

definition exampleRemote :: Config where
  "exampleRemote =
     \<lparr>Organization = ''org'',
      Teams =
        [(''ops'', \<lparr>ID = ''T1'', Members = Some [''b'', ''c''],
            CodeReviewAssignment = zeroCodeReviewAssignment\<rparr>),
         (''dev'', \<lparr>ID = ''T2'', Members = Some [''x''],
            CodeReviewAssignment = zeroCodeReviewAssignment\<rparr>)],
      Config_Members = Map.empty,
      ExcludeCRAFromAllTeams = []\<rparr>"

text \<open>A runtime that ranges over every map from the last entry to the first.\<close>

definition exampleRuntime :: "(string \<Rightarrow> string + bool) \<Rightarrow> runtime" where
  "exampleRuntime ask =
     \<lparr>AskForConfirmation = ask, ToLower = asciiToLower,
      rangeTeams = rev, rangeTeamNames = rev, rangeChangesPrint = rev, rangeChangesApply = rev,
      rangeTeamMembers = (\<lambda>name. rev), rangeIDs = (\<lambda>name. rev)\<rparr>"

text \<open>
  The same organization on the remote side, in two team pages; the members of \<open>ops\<close>
  come in two pages.
\<close>

definition exampleTeam :: "string \<Rightarrow> string \<Rightarrow> team" where
  "exampleTeam i name =
     \<lparr>MembersNodes = [], MembersPageInfo = \<lparr>EndCursor = [], HasNextPage = False\<rparr>,
      team_ID = i, DatabaseID = 0, team_Name = name,
      ReviewRequestDelegationEnabled = False, ReviewRequestDelegationAlgorithm = [],
      ReviewRequestDelegationMemberCount = 0, ReviewRequestDelegationNotifyTeam = False\<rparr>"

definition exampleMember :: "string \<Rightarrow> string \<Rightarrow> teamMember" where
  "exampleMember i login = \<lparr>member_ID = i, member_Login = login, member_Name = login\<rparr>"

definition exampleOrg :: "teamPages list list" where
  "exampleOrg =
     [[(exampleTeam ''T1'' ''ops'', [[exampleMember ''U9'' ''c''], [exampleMember ''U2'' ''b'']])],
      [(exampleTeam ''T2'' ''dev'', [[exampleMember ''U3'' ''x'']])]]"

text \<open>A manager on that organization whose mutations answer as \<open>r\<close> says.\<close>

definition exampleManager :: "(event list \<Rightarrow> call \<Rightarrow> string option) \<Rightarrow> Manager" where
  "exampleManager r = \<lparr>owner = ''org'', gqlQuery = serve exampleOrg, respond = r\<rparr>"

text \<open>A remote side that refuses to add a to the team \<open>ops\<close>.\<close>

definition exampleFailure :: "event list \<Rightarrow> call \<Rightarrow> string option" where
  "exampleFailure w c =
     (if c = AddTeamMembershipBySlug ''org'' ''ops'' ''a'' ''member'' then Some ''boom'' else None)"

section \<open>Properties of the slug\<close>

lemma slugChar_ascii_lower:
  "isSlugChar c \<or> c = CHR ''-'' \<Longrightarrow> of_char c < (128::nat) \<and> asciiLowerChar c = c"
  unfolding isSlugChar_def asciiLowerChar_def by (elim disjE) simp_all

lemma slugChars_ascii_lower:
  "list_all (\<lambda>c. isSlugChar c \<or> c = CHR ''-'') s \<Longrightarrow> isASCII s \<and> asciiToLower s = s"
  unfolding isASCII_def asciiToLower_def
  by (induction s) (simp_all add: slugChar_ascii_lower)

lemma replaceAllString_noRun:
  "successively (\<lambda>c d. isSlugChar c \<or> isSlugChar d) (replaceAllString s)"
proof (induction s rule: replaceAllString.induct)
  case 1
  then show ?case by simp
next
  case (2 c cs)
  show ?case
  proof (cases "isSlugChar c")
    case True
    with 2 show ?thesis by (cases "replaceAllString cs") (auto simp: successively_Cons)
  next
    case False
    define r where "r = dropWhile (\<lambda>d. \<not> isSlugChar d) cs"
    have hd: "r \<noteq> [] \<Longrightarrow> isSlugChar (hd r)"
      unfolding r_def using hd_dropWhile [of "\<lambda>d. \<not> isSlugChar d" cs] by simp
    have "replaceAllString r = [] \<or> isSlugChar (hd (replaceAllString r))"
      using hd by (cases r) auto
    moreover have "successively (\<lambda>c d. isSlugChar c \<or> isSlugChar d) (replaceAllString r)"
      using 2(2) [OF False] by (simp add: r_def)
    moreover have "replaceAllString (c # cs) = CHR ''-'' # replaceAllString r"
      using False by (simp add: r_def)
    ultimately show ?thesis
      by (cases "replaceAllString r") (auto simp: successively_Cons)
  qed
qed

lemma trimDash_decomp:
  "dropWhile (\<lambda>c. c = CHR ''-'') s =
     trimDash s @ rev (takeWhile (\<lambda>c. c = CHR ''-'') (rev (dropWhile (\<lambda>c. c = CHR ''-'') s)))"
proof -
  let ?P = "\<lambda>c. c = CHR ''-''"
  let ?m = "dropWhile ?P s"
  have "rev (takeWhile ?P (rev ?m) @ dropWhile ?P (rev ?m)) = ?m"
    by (simp only: takeWhile_dropWhile_id rev_rev_ident)
  then show ?thesis
    by (simp only: rev_append trimDash_def)
qed

lemma trimDash_suffix: "\<exists>q. dropWhile (\<lambda>c. c = CHR ''-'') s = trimDash s @ q"
  using trimDash_decomp by blast

lemma trimDash_split: "\<exists>p q. s = p @ trimDash s @ q"
proof -
  obtain q where q: "dropWhile (\<lambda>c. c = CHR ''-'') s = trimDash s @ q"
    using trimDash_suffix by blast
  have "s = takeWhile (\<lambda>c. c = CHR ''-'') s @ dropWhile (\<lambda>c. c = CHR ''-'') s" by simp
  then have "s = takeWhile (\<lambda>c. c = CHR ''-'') s @ trimDash s @ q"
    by (simp only: q)
  then show ?thesis by blast
qed

lemma trimDash_hd: "trimDash s \<noteq> [] \<Longrightarrow> hd (trimDash s) \<noteq> CHR ''-''"
proof -
  assume ne: "trimDash s \<noteq> []"
  obtain q where q: "dropWhile (\<lambda>c. c = CHR ''-'') s = trimDash s @ q"
    using trimDash_suffix by blast
  with ne have mne: "dropWhile (\<lambda>c. c = CHR ''-'') s \<noteq> []" by simp
  then have "\<not> (hd (dropWhile (\<lambda>c. c = CHR ''-'') s) = CHR ''-'')" by (rule hd_dropWhile)
  then have "hd (trimDash s @ q) \<noteq> CHR ''-''" by (simp add: q)
  with ne show ?thesis by (simp add: hd_append)
qed

lemma replaceAllString_chars:
  "list_all (\<lambda>c. isSlugChar c \<or> c = CHR ''-'') (replaceAllString s)"
  by (induction s rule: replaceAllString.induct) auto

lemma trimDash_last: "trimDash s \<noteq> [] \<Longrightarrow> last (trimDash s) \<noteq> CHR ''-''"
proof -
  let ?P = "\<lambda>c. c = CHR ''-''"
  let ?d = "dropWhile ?P (rev (dropWhile ?P s))"
  assume ne: "trimDash s \<noteq> []"
  then have "?d \<noteq> []" by (simp add: trimDash_def)
  then have "\<not> ?P (hd ?d)" by (rule hd_dropWhile)
  moreover have "last (trimDash s) = hd ?d"
    using \<open>?d \<noteq> []\<close> by (simp add: trimDash_def last_rev)
  ultimately show ?thesis by simp
qed

lemma trimDash_fixed:
  "s = [] \<or> (hd s \<noteq> CHR ''-'' \<and> last s \<noteq> CHR ''-'') \<Longrightarrow> trimDash s = s"
proof (cases s)
  case Nil
  then show ?thesis by (simp add: trimDash_def)
next
  case (Cons c cs)
  assume "s = [] \<or> (hd s \<noteq> CHR ''-'' \<and> last s \<noteq> CHR ''-'')"
  with Cons have h: "c \<noteq> CHR ''-''" and l: "last s \<noteq> CHR ''-''" by auto
  from h Cons have 1: "dropWhile (\<lambda>c. c = CHR ''-'') s = s" by simp
  from Cons have "rev s \<noteq> []" by simp
  moreover have "hd (rev s) \<noteq> CHR ''-''" using l by (simp add: hd_rev)
  ultimately have 2: "dropWhile (\<lambda>c. c = CHR ''-'') (rev s) = rev s"
    by (cases "rev s") auto
  show ?thesis by (simp add: trimDash_def 1 2)
qed

lemma replaceAllString_fixed:
  "list_all (\<lambda>c. isSlugChar c \<or> c = CHR ''-'') s \<Longrightarrow>
   successively (\<lambda>c d. isSlugChar c \<or> isSlugChar d) s \<Longrightarrow> replaceAllString s = s"
proof (induction s rule: replaceAllString.induct)
  case 1
  then show ?case by simp
next
  case (2 c cs)
  show ?case
  proof (cases "isSlugChar c")
    case True
    with 2 show ?thesis by (cases cs) (auto simp: successively_Cons)
  next
    case False
    with "2.prems" have d: "dropWhile (\<lambda>d. \<not> isSlugChar d) cs = cs" and c: "c = CHR ''-''"
      by (cases cs; auto simp: successively_Cons)+
    from "2.prems" have "list_all (\<lambda>c. isSlugChar c \<or> c = CHR ''-'') cs"
      and "successively (\<lambda>c d. isSlugChar c \<or> isSlugChar d) cs"
      by (cases cs; auto simp: successively_Cons)+
    with "2.IH"(2) [OF False] d have "replaceAllString cs = cs" by simp
    with False d c show ?thesis by simp
  qed
qed

lemma slug_shape:
  "list_all (\<lambda>c. isSlugChar c \<or> c = CHR ''-'') (slug toLower s) \<and>
   successively (\<lambda>c d. isSlugChar c \<or> isSlugChar d) (slug toLower s)"
proof -
  let ?r = "replaceAllString (toLower s)"
  obtain p q where pq: "?r = p @ trimDash ?r @ q" using trimDash_split by blast
  have "list_all (\<lambda>c. isSlugChar c \<or> c = CHR ''-'') (p @ trimDash ?r @ q)"
    using replaceAllString_chars [of "toLower s"] pq by simp
  moreover have "successively (\<lambda>c d. isSlugChar c \<or> isSlugChar d) (p @ trimDash ?r @ q)"
    using replaceAllString_noRun [of "toLower s"] pq by simp
  ultimately show ?thesis
    by (auto simp: slug_def successively_append_iff)
qed

text \<open>
  Claim C10. The slug is idempotent: applying it to its own output changes nothing. Its
  output holds only lowercase ASCII letters, digits and dashes, and neither starts nor
  ends with a dash. \<open>toLower\<close> stands for \<^verbatim>\<open>strings.ToLower\<close>, of which only the
  behaviour on ASCII strings is used.
\<close>

theorem slug_idempotent:
  assumes "toLowerOnASCII toLower"
  shows "slug toLower (slug toLower s) = slug toLower s \<and>
    (\<forall>c \<in> set (slug toLower s). isSlugChar c \<or> c = CHR ''-'') \<and>
    (slug toLower s \<noteq> [] \<longrightarrow>
       hd (slug toLower s) \<noteq> CHR ''-'' \<and> last (slug toLower s) \<noteq> CHR ''-'')"
proof -
  let ?t = "slug toLower s"
  have sh: "list_all (\<lambda>c. isSlugChar c \<or> c = CHR ''-'') ?t"
    and nr: "successively (\<lambda>c d. isSlugChar c \<or> isSlugChar d) ?t"
    using slug_shape by blast+
  have ends: "?t \<noteq> [] \<longrightarrow> hd ?t \<noteq> CHR ''-'' \<and> last ?t \<noteq> CHR ''-''"
    using trimDash_hd trimDash_last by (simp add: slug_def)
  from sh have "isASCII ?t" and "asciiToLower ?t = ?t" using slugChars_ascii_lower by blast+
  with assms have "toLower ?t = ?t" by (simp add: toLowerOnASCII_def)
  moreover have "replaceAllString ?t = ?t" using sh nr by (rule replaceAllString_fixed)
  moreover have "trimDash ?t = ?t" using ends by (intro trimDash_fixed) blast
  ultimately have "slug toLower ?t = ?t" by (simp add: slug_def)
  with sh ends show ?thesis by (simp add: list_all_iff)
qed

theorem slug_idempotent_witness:
  "toLowerOnASCII asciiToLower \<and>
   slug asciiToLower ''Team  A_b!'' = ''team-a-b'' \<and>
   slug asciiToLower (slug asciiToLower ''Team  A_b!'') = slug asciiToLower ''Team  A_b!''"
proof -
  have h: "toLowerOnASCII asciiToLower" by (simp add: toLowerOnASCII_def)
  have v: "slug asciiToLower ''Team  A_b!'' = ''team-a-b''" by code_simp
  show ?thesis using h v slug_idempotent [OF h, of "''Team  A_b!''"] by simp
qed

section \<open>The diff pass\<close>

lemma NotIn_set: "set (NotIn a b) = set a - set b"
  by (auto simp: NotIn_def)

lemma NotIn_same: "NotIn a a = []"
  by (simp add: NotIn_def)

lemma legalOrder_rev: "legalOrder rev"
  by (simp add: legalOrder_def)

lemma legalOrder_map_of:
  assumes l: "legalOrder f" and d: "distinct (map fst xs)"
  shows "distinct (map fst (f xs)) \<and> map_of (f xs) = map_of xs \<and> set (f xs) = set xs"
proof -
  from l have m: "mset (f xs) = mset xs" by (simp add: legalOrder_def)
  then have "mset (map fst (f xs)) = mset (map fst xs)" by (metis mset_map)
  with d have d': "distinct (map fst (f xs))" by (metis mset_eq_imp_distinct_iff)
  from m have s: "set (f xs) = set xs" by (metis set_mset_mset)
  have "map_of (f xs) = map_of xs"
    using d d' s by (intro map_of_inject_set [THEN iffD2]) simp_all
  with d' s show ?thesis by simp
qed

text \<open>
  When the two records are equal the member lists are equal, and both differences are
  empty: what the body records depends on the member lists alone.
\<close>

lemma diffTeam_changes:
  "snd (snd (diffTeam up (name, lt) (w, chs))) =
     (case pendingChange up name lt of None \<Rightarrow> chs | Some ch \<Rightarrow> AList.update name ch chs)"
proof (cases "lt\<lparr>CodeReviewAssignment := (CodeReviewAssignment lt)\<lparr>ExcludedMembers := None\<rparr>\<rparr>
               = teamAt (Teams up) name")
  case True
  then have "Members (lt\<lparr>CodeReviewAssignment := (CodeReviewAssignment lt)\<lparr>ExcludedMembers := None\<rparr>\<rparr>)
      = Members (teamAt (Teams up) name)"
    by simp
  then have m: "Members (teamAt (Teams up) name) = Members lt" by simp
  show ?thesis using True by (simp add: diffTeam_def pendingChange_def m NotIn_same Let_def)
next
  case False
  then show ?thesis by (simp add: diffTeam_def pendingChange_def Let_def)
qed

lemma diffFold_lookup:
  "distinct (map fst entries) \<Longrightarrow>
   map_of (snd (fold (\<lambda>entry st. snd (diffTeam up entry st)) entries (w, chs))) name =
     (case map_of entries name of
        None \<Rightarrow> map_of chs name
      | Some lt \<Rightarrow> (case pendingChange up name lt of None \<Rightarrow> map_of chs name | Some ch \<Rightarrow> Some ch))"
proof (induction entries arbitrary: w chs)
  case Nil
  then show ?case by simp
next
  case (Cons e es)
  obtain n lt where e: "e = (n, lt)" by (cases e)
  obtain t w' chs' where st: "diffTeam up (n, lt) (w, chs) = (t, w', chs')"
    by (cases "diffTeam up (n, lt) (w, chs)")
  have chs': "chs' = (case pendingChange up n lt of None \<Rightarrow> chs | Some ch \<Rightarrow> AList.update n ch chs)"
    using diffTeam_changes [of up n lt w chs] st by simp
  from Cons.prems e have d: "distinct (map fst es)" and nin: "n \<notin> fst ` set es" by auto
  have none: "map_of es n = None" using nin by (simp add: map_of_eq_None_iff)
  show ?case
    using Cons.IH [OF d, of w' chs'] none
    by (auto simp: e st chs' update_conv' split: option.splits)
qed

lemma diffPass_lookup:
  "distinct (map fst entries) \<Longrightarrow>
   map_of (snd (diffPass up entries)) name =
     (case map_of entries name of None \<Rightarrow> None | Some lt \<Rightarrow> pendingChange up name lt)"
  by (simp add: diffPass_def diffFold_lookup split: option.splits)

lemma diffPass_range_lookup:
  assumes "legalOrder f" and "distinct (map fst ts)"
  shows "map_of (snd (diffPass up (f ts))) name =
     (case map_of ts name of None \<Rightarrow> None | Some lt \<Rightarrow> pendingChange up name lt)"
  using legalOrder_map_of [OF assms] by (simp add: diffPass_lookup)

text \<open>
  Claim C1. A local team that equals its remote counterpart in every field but the
  excluded members of its review assignment gets no pending change: both differences
  of the member lists are empty and the change map has no entry for the team.
\<close>

theorem diff_exempts_excluded_members:
  assumes "legalOrder (rangeTeams rt)"
    and "distinct (map fst (Teams localCfg))"
    and "map_of (Teams localCfg) name = Some lt"
    and "map_of (Teams upstreamCfg) name = Some ut"
    and "ID lt = ID ut"
    and "Members lt = Members ut"
    and "Algorithm (CodeReviewAssignment lt) = Algorithm (CodeReviewAssignment ut)"
    and "Enabled (CodeReviewAssignment lt) = Enabled (CodeReviewAssignment ut)"
    and "NotifyTeam (CodeReviewAssignment lt) = NotifyTeam (CodeReviewAssignment ut)"
    and "TeamMemberCount (CodeReviewAssignment lt) = TeamMemberCount (CodeReviewAssignment ut)"
  shows "NotIn (elems (Members lt)) (elems (Members ut)) = [] \<and>
         NotIn (elems (Members ut)) (elems (Members lt)) = [] \<and>
         map_of (snd (diffPass upstreamCfg (rangeTeams rt (Teams localCfg)))) name = None"
proof -
  have t: "teamAt (Teams upstreamCfg) name = ut" using assms(4) by (simp add: teamAt_def)
  have "pendingChange upstreamCfg name lt = None"
    by (simp add: pendingChange_def t assms(6) NotIn_same)
  then show ?thesis
    using diffPass_range_lookup [OF assms(1,2), of upstreamCfg name] assms(3,6)
    by (simp add: NotIn_same)
qed

theorem diff_exempts_excluded_members_witness:
  "legalOrder (rangeTeams (exampleRuntime (\<lambda>p. Inr True))) \<and>
   distinct (map fst (Teams exampleLocal)) \<and>
   ExcludedMembers (CodeReviewAssignment (teamAt (Teams exampleLocal) ''dev'')) \<noteq>
     ExcludedMembers (CodeReviewAssignment (teamAt (Teams exampleRemote) ''dev'')) \<and>
   map_of (snd (diffPass exampleRemote
      (rangeTeams (exampleRuntime (\<lambda>p. Inr True)) (Teams exampleLocal)))) ''dev'' = None"
proof -
  have 1: "legalOrder (rangeTeams (exampleRuntime (\<lambda>p. Inr True)))"
    by (simp add: exampleRuntime_def legalOrder_rev)
  have 2: "distinct (map fst (Teams exampleLocal))" by (simp add: exampleLocal_def)
  have 3: "map_of (Teams exampleLocal) ''dev'' =
      Some \<lparr>ID = ''T2'', Members = Some [''x''],
            CodeReviewAssignment = zeroCodeReviewAssignment
              \<lparr>ExcludedMembers := Some [\<lparr>Login = ''x''\<rparr>]\<rparr>\<rparr>"
    by (simp add: exampleLocal_def)
  have 4: "map_of (Teams exampleRemote) ''dev'' =
      Some \<lparr>ID = ''T2'', Members = Some [''x''],
            CodeReviewAssignment = zeroCodeReviewAssignment\<rparr>"
    by (simp add: exampleRemote_def)
  have 5: "ExcludedMembers (CodeReviewAssignment (teamAt (Teams exampleLocal) ''dev'')) \<noteq>
     ExcludedMembers (CodeReviewAssignment (teamAt (Teams exampleRemote) ''dev''))"
    by (simp add: teamAt_def 3 4 zeroCodeReviewAssignment_def)
  show ?thesis
    using diff_exempts_excluded_members [OF 1 2 3 4] 1 2 5
    by (simp add: zeroCodeReviewAssignment_def)
qed

text \<open>
  Claim C4. For a local team, the members to add (local without remote) and the members
  to remove (remote without local) are disjoint, the remote members with the former
  added and the latter removed are the local members, and the change the diff pass
  records for the team consists of exactly these two lists.
\<close>

theorem changes_disjoint_and_reconcile:
  assumes "legalOrder (rangeTeams rt)"
    and "distinct (map fst (Teams localCfg))"
    and "map_of (Teams localCfg) name = Some lt"
    and "remote = elems (Members (teamAt (Teams upstreamCfg) name))"
    and "toAdd = NotIn (elems (Members lt)) remote"
    and "toRemove = NotIn remote (elems (Members lt))"
  shows "set toAdd \<inter> set toRemove = {} \<and>
         (set remote \<union> set toAdd) - set toRemove = set (elems (Members lt)) \<and>
         map_of (snd (diffPass upstreamCfg (rangeTeams rt (Teams localCfg)))) name =
           (if toAdd \<noteq> [] \<or> toRemove \<noteq> [] then Some \<lparr>add = toAdd, remove = toRemove\<rparr> else None)"
proof -
  have "set toAdd \<inter> set toRemove = {}"
    and "(set remote \<union> set toAdd) - set toRemove = set (elems (Members lt))"
    by (auto simp: assms(5,6) NotIn_set)
  moreover have "map_of (snd (diffPass upstreamCfg (rangeTeams rt (Teams localCfg)))) name =
      (if toAdd \<noteq> [] \<or> toRemove \<noteq> [] then Some \<lparr>add = toAdd, remove = toRemove\<rparr> else None)"
    using diffPass_range_lookup [OF assms(1,2), of upstreamCfg name] assms(3)
    by (simp add: pendingChange_def assms(4,5,6))
  ultimately show ?thesis by simp
qed

theorem changes_disjoint_and_reconcile_witness:
  "legalOrder (rangeTeams (exampleRuntime (\<lambda>p. Inr True))) \<and>
   distinct (map fst (Teams exampleLocal)) \<and>
   set [''a''] \<inter> set [''c''] = ({} :: string set) \<and>
   (set [''b'', ''c''] \<union> set [''a'']) - set [''c''] = set [''a'', ''b''] \<and>
   map_of (snd (diffPass exampleRemote
      (rangeTeams (exampleRuntime (\<lambda>p. Inr True)) (Teams exampleLocal)))) ''ops'' =
     Some \<lparr>add = [''a''], remove = [''c'']\<rparr>"
proof -
  have 1: "legalOrder (rangeTeams (exampleRuntime (\<lambda>p. Inr True)))"
    by (simp add: exampleRuntime_def legalOrder_rev)
  have 2: "distinct (map fst (Teams exampleLocal))" by (simp add: exampleLocal_def)
  have 3: "map_of (Teams exampleLocal) ''ops'' =
      Some \<lparr>ID = ''T1'', Members = Some [''a'', ''b''],
            CodeReviewAssignment = zeroCodeReviewAssignment
              \<lparr>ExcludedMembers := Some [\<lparr>Login = ''a''\<rparr>, \<lparr>Login = ''zz''\<rparr>]\<rparr>\<rparr>"
    by (simp add: exampleLocal_def)
  have 4: "[''b'', ''c''] = elems (Members (teamAt (Teams exampleRemote) ''ops''))"
    by (simp add: exampleRemote_def teamAt_def elems_def)
  have 5: "[''a''] = NotIn (elems (Members \<lparr>ID = ''T1'', Members = Some [''a'', ''b''],
            CodeReviewAssignment = zeroCodeReviewAssignment
              \<lparr>ExcludedMembers := Some [\<lparr>Login = ''a''\<rparr>, \<lparr>Login = ''zz''\<rparr>]\<rparr>\<rparr>)) [''b'', ''c'']"
    by (simp add: NotIn_def elems_def)
  have 6: "[''c''] = NotIn [''b'', ''c''] (elems (Members \<lparr>ID = ''T1'', Members = Some [''a'', ''b''],
            CodeReviewAssignment = zeroCodeReviewAssignment
              \<lparr>ExcludedMembers := Some [\<lparr>Login = ''a''\<rparr>, \<lparr>Login = ''zz''\<rparr>]\<rparr>\<rparr>))"
    by (simp add: NotIn_def elems_def)
  show ?thesis
    using changes_disjoint_and_reconcile [OF 1 2 3 4 5 6] 1 2 by (simp add: elems_def)
qed

section \<open>The excluded users\<close>

lemma keyInsert_set: "set (keyInsert x ks) = insert x (set ks)"
  by (auto simp: keyInsert_def)

lemma keyInsert_distinct: "distinct ks \<Longrightarrow> distinct (keyInsert x ks)"
  by (simp add: keyInsert_def)

lemma excludeTeamMember_step:
  "excludeTeamMember teamName members e (out, m) =
     (case members (Login e) of
        None \<Rightarrow> (out @ [ErrUserNotFound (Login e) teamName], m)
      | Some user \<Rightarrow> (out, keyInsert (User_ID user) m))"
  by (simp add: excludeTeamMember_def)

lemma excludeAllTeams_step:
  "excludeAllTeams members l (out, m) =
     (case members l of None \<Rightarrow> (out, m) | Some user \<Rightarrow> (out, keyInsert (User_ID user) m))"
  by (simp add: excludeAllTeams_def)

lemma fold_excludeTeamMember:
  "fold (excludeTeamMember teamName members) exc (out, m) =
     (out @ map (\<lambda>e. ErrUserNotFound (Login e) teamName)
              (filter (\<lambda>e. members (Login e) = None) exc),
      fold keyInsert (List.map_filter (\<lambda>e. map_option User_ID (members (Login e))) exc) m)"
proof (induction exc arbitrary: out m)
  case Nil
  then show ?case by (simp add: map_filter_simps)
next
  case (Cons e es)
  show ?case
    by (cases "members (Login e)")
      (simp_all add: excludeTeamMember_step Cons.IH map_filter_simps)
qed

lemma fold_excludeAllTeams:
  "fold (excludeAllTeams members) logins (out, m) =
     (out, fold keyInsert (List.map_filter (\<lambda>l. map_option User_ID (members l)) logins) m)"
proof (induction logins arbitrary: m)
  case Nil
  then show ?case by (simp add: map_filter_simps)
next
  case (Cons l ls)
  show ?case
    by (cases "members l") (simp_all add: excludeAllTeams_step Cons.IH map_filter_simps)
qed

lemma fold_keyInsert_set: "set (fold keyInsert xs ks) = set xs \<union> set ks"
  by (induction xs arbitrary: ks) (auto simp: keyInsert_set)

lemma fold_keyInsert_distinct: "distinct ks \<Longrightarrow> distinct (fold keyInsert xs ks)"
  by (induction xs arbitrary: ks) (auto simp: keyInsert_distinct)

lemma set_map_filter_ids:
  "set (List.map_filter (\<lambda>x. map_option User_ID (members (f x))) xs) =
     {User_ID u | u x. x \<in> set xs \<and> members (f x) = Some u}"
  by (induction xs) (auto simp: map_filter_simps split: option.splits)

lemma legalOrder_set_distinct:
  "legalOrder f \<Longrightarrow> set (f xs) = set xs \<and> (distinct (f xs) \<longleftrightarrow> distinct xs)"
  by (metis legalOrder_def set_mset_mset mset_eq_imp_distinct_iff)

text \<open>
  Claim C6. \<^verbatim>\<open>getExcludedUsers\<close> returns, each once, the directory identifiers of the
  logins of the team's list and of the organization's list that the directory knows.
  It prints one error for each login of the team's list that the directory does not
  know, and nothing for the organization's list; an unknown login only leaves no
  identifier in the result.
\<close>

theorem getExcludedUsers_resolves:
  assumes "legalOrder order"
  shows "distinct (snd (getExcludedUsers order teamName members excTeamMembers excAllTeams)) \<and>
         set (snd (getExcludedUsers order teamName members excTeamMembers excAllTeams)) =
           {User_ID u | u login.
              (login \<in> Login ` set excTeamMembers \<or> login \<in> set excAllTeams) \<and>
              members login = Some u} \<and>
         fst (getExcludedUsers order teamName members excTeamMembers excAllTeams) =
           map (\<lambda>e. ErrUserNotFound (Login e) teamName)
             (filter (\<lambda>e. members (Login e) = None) excTeamMembers)"
proof -
  let ?a = "List.map_filter (\<lambda>e. map_option User_ID (members (Login e))) excTeamMembers"
  let ?b = "List.map_filter (\<lambda>l. map_option User_ID (members l)) excAllTeams"
  have g: "getExcludedUsers order teamName members excTeamMembers excAllTeams =
      (map (\<lambda>e. ErrUserNotFound (Login e) teamName)
             (filter (\<lambda>e. members (Login e) = None) excTeamMembers),
       order (fold keyInsert ?b (fold keyInsert ?a [])))"
    by (simp add: getExcludedUsers_def fold_excludeTeamMember fold_excludeAllTeams)
  have d: "distinct (fold keyInsert ?b (fold keyInsert ?a []))"
    by (simp add: fold_keyInsert_distinct)
  have a: "set ?a = {User_ID u | u login. login \<in> Login ` set excTeamMembers \<and> members login = Some u}"
    using set_map_filter_ids [of members Login excTeamMembers] by auto
  have b: "set ?b = {User_ID u | u login. login \<in> set excAllTeams \<and> members login = Some u}"
    using set_map_filter_ids [of members "\<lambda>l. l" excAllTeams] by auto
  have s: "set (fold keyInsert ?b (fold keyInsert ?a [])) =
      {User_ID u | u login.
         (login \<in> Login ` set excTeamMembers \<or> login \<in> set excAllTeams) \<and> members login = Some u}"
    unfolding fold_keyInsert_set a b by auto
  show ?thesis
    using legalOrder_set_distinct [OF assms, of "fold keyInsert ?b (fold keyInsert ?a [])"] d s
    by (simp add: g)
qed

theorem getExcludedUsers_resolves_witness:
  "legalOrder (rev :: string list \<Rightarrow> string list) \<and>
   getExcludedUsers rev ''ops'' (Config_Members exampleLocal)
     [\<lparr>Login = ''a''\<rparr>, \<lparr>Login = ''zz''\<rparr>, \<lparr>Login = ''b''\<rparr>] [''b'', ''q'', ''x''] =
     ([ErrUserNotFound ''zz'' ''ops''], [''U3'', ''U2'', ''U1'']) \<and>
   distinct (snd (getExcludedUsers rev ''ops'' (Config_Members exampleLocal)
     [\<lparr>Login = ''a''\<rparr>, \<lparr>Login = ''zz''\<rparr>, \<lparr>Login = ''b''\<rparr>] [''b'', ''q'', ''x'']))"
proof -
  have v: "getExcludedUsers rev ''ops'' (Config_Members exampleLocal)
     [\<lparr>Login = ''a''\<rparr>, \<lparr>Login = ''zz''\<rparr>, \<lparr>Login = ''b''\<rparr>] [''b'', ''q'', ''x''] =
     ([ErrUserNotFound ''zz'' ''ops''], [''U3'', ''U2'', ''U1''])"
    by (simp add: getExcludedUsers_def excludeTeamMember_def excludeAllTeams_def keyInsert_def
        exampleLocal_def)
  show ?thesis
    using getExcludedUsers_resolves [OF legalOrder_rev, of "''ops''" "Config_Members exampleLocal"
        "[\<lparr>Login = ''a''\<rparr>, \<lparr>Login = ''zz''\<rparr>, \<lparr>Login = ''b''\<rparr>]" "[''b'', ''q'', ''x'']"]
      legalOrder_rev v
    by simp
qed

section \<open>The membership pass\<close>

lemma keyDelete_set: "set (keyDelete x ks) = set ks - {x}"
  by (auto simp: keyDelete_def)

lemma keyDelete_distinct: "distinct ks \<Longrightarrow> distinct (keyDelete x ks)"
  by (simp add: keyDelete_def distinct_removeAll)

lemma fold_keyDelete_set: "set (fold keyDelete xs ks) = set ks - set xs"
  by (induction xs arbitrary: ks) (auto simp: keyDelete_set)

lemma fold_keyDelete_distinct: "distinct ks \<Longrightarrow> distinct (fold keyDelete xs ks)"
  by (induction xs arbitrary: ks) (auto simp: keyDelete_distinct)

lemma recomputedMembers_set:
  assumes "legalOrder (rangeTeamMembers rt n)"
  shows "distinct (recomputedMembers rt n ch t) \<and>
         set (recomputedMembers rt n ch t) = (set (elems (Members t)) - set (remove ch)) \<union> set (add ch)"
proof -
  let ?m = "fold keyInsert (add ch) (fold keyDelete (remove ch) (fold keyInsert (elems (Members t)) []))"
  have "distinct ?m"
    by (intro fold_keyInsert_distinct fold_keyDelete_distinct) simp
  moreover have "set ?m = (set (elems (Members t)) - set (remove ch)) \<union> set (add ch)"
    by (auto simp: fold_keyInsert_set fold_keyDelete_set)
  ultimately show ?thesis
    using legalOrder_set_distinct [OF assms, of ?m] by (simp add: recomputedMembers_def)
qed

lemma applyTeam_dry:
  "applyTeam tm rt True (n, ch) (cfg, w) =
     (cfg\<lparr>Teams := AList.update n ((teamAt (Teams cfg) n)\<lparr>Members := Some (recomputedMembers rt n ch (teamAt (Teams cfg) n))\<rparr>) (Teams cfg)\<rparr>, w)"
  by (simp add: applyTeam_def recomputedMembers_def)

lemma applyTeam_ok:
  "SyncTeamMembers tm rt n (add ch) (remove ch) w = (w1, None) \<Longrightarrow>
   applyTeam tm rt False (n, ch) (cfg, w) =
     (cfg\<lparr>Teams := AList.update n ((teamAt (Teams cfg) n)\<lparr>Members := Some (recomputedMembers rt n ch (teamAt (Teams cfg) n))\<rparr>) (Teams cfg)\<rparr>, w1)"
  by (simp add: applyTeam_def recomputedMembers_def)

lemma applyTeam_failed:
  "SyncTeamMembers tm rt n (add ch) (remove ch) w = (w1, Some err) \<Longrightarrow>
   applyTeam tm rt False (n, ch) (cfg, w) = (cfg, w1 @ [Stderr (ErrUnableToSyncTeam n err)])"
  by (simp add: applyTeam_def)

text \<open>An iteration for one team leaves the entries of the other teams alone.\<close>

lemma applyTeam_other:
  "n' \<noteq> n \<Longrightarrow>
   map_of (Teams (fst (applyTeam tm rt dryRun (n, ch) (cfg, w)))) n' = map_of (Teams cfg) n'"
  by (simp add: applyTeam_def update_conv' split: prod.splits option.splits)

lemma applyFold_other:
  "n' \<notin> fst ` set chs \<Longrightarrow>
   map_of (Teams (fst (fold (applyTeam tm rt dryRun) chs (cfg, w)))) n' = map_of (Teams cfg) n'"
proof (induction chs arbitrary: cfg w)
  case Nil
  then show ?case by simp
next
  case (Cons e es)
  obtain n ch where e: "e = (n, ch)" by (cases e)
  obtain cfg1 w1 where s: "applyTeam tm rt dryRun (n, ch) (cfg, w) = (cfg1, w1)"
    by (cases "applyTeam tm rt dryRun (n, ch) (cfg, w)")
  from Cons.prems e have ne: "n' \<noteq> n" and nin: "n' \<notin> fst ` set es" by auto
  have "map_of (Teams cfg1) n' = map_of (Teams cfg) n'"
    using applyTeam_other [OF ne, of tm rt dryRun ch cfg w] s by simp
  then show ?case using Cons.IH [OF nin, of cfg1 w1] by (simp add: e s)
qed

lemma addMembers_prefix: "\<exists>v. fst (addMembers tm rt n us w) = w @ v"
proof (induction us arbitrary: w)
  case Nil
  then show ?case by simp
next
  case (Cons u us)
  let ?w = "w @ [Stdout (MsgAddingMember u n),
      Remote (AddTeamMembershipBySlug (owner tm) (slug (ToLower rt) n) u ''member'')]"
  obtain v where "fst (addMembers tm rt n us ?w) = ?w @ v" using Cons.IH by blast
  then show ?case by (auto split: option.splits)
qed

lemma removeMembers_prefix: "\<exists>v. fst (removeMembers tm rt n us w) = w @ v"
proof (induction us arbitrary: w)
  case Nil
  then show ?case by simp
next
  case (Cons u us)
  let ?w = "w @ [Stdout (MsgRemovingMember u n),
      Remote (RemoveTeamMembershipBySlug (owner tm) (slug (ToLower rt) n) u)]"
  obtain v where "fst (removeMembers tm rt n us ?w) = ?w @ v" using Cons.IH by blast
  then show ?case by (auto split: option.splits)
qed

lemma SyncTeamMembers_prefix: "\<exists>v. fst (SyncTeamMembers tm rt n adds removes w) = w @ v"
proof -
  obtain w1 r where a: "addMembers tm rt n adds w = (w1, r)" by (cases "addMembers tm rt n adds w")
  obtain v1 where v1: "w1 = w @ v1" using addMembers_prefix [of tm rt n adds w] a by auto
  obtain v2 where v2: "fst (removeMembers tm rt n removes w1) = w1 @ v2"
    using removeMembers_prefix by blast
  show ?thesis
    using a v1 v2 by (cases r) (auto simp: SyncTeamMembers_def)
qed

lemma applyTeam_events_prefix:
  "\<exists>v. snd (applyTeam tm rt dryRun e (cfg, w)) = w @ v"
proof -
  obtain n ch where e: "e = (n, ch)" by (cases e)
  obtain w1 r where s: "SyncTeamMembers tm rt n (add ch) (remove ch) w = (w1, r)"
    by (cases "SyncTeamMembers tm rt n (add ch) (remove ch) w")
  obtain v where "w1 = w @ v" using SyncTeamMembers_prefix [of tm rt n "add ch" "remove ch" w] s by auto
  then show ?thesis
    using s by (cases r; cases dryRun) (auto simp: applyTeam_def e)
qed

lemma applyFold_events_prefix:
  "\<exists>v. snd (fold (applyTeam tm rt dryRun) chs (cfg, w)) = w @ v"
proof (induction chs arbitrary: cfg w)
  case Nil
  then show ?case by simp
next
  case (Cons e es)
  obtain cfg1 w1 where s: "applyTeam tm rt dryRun e (cfg, w) = (cfg1, w1)"
    by (cases "applyTeam tm rt dryRun e (cfg, w)")
  obtain v1 where v1: "w1 = w @ v1" using applyTeam_events_prefix [of tm rt dryRun e cfg w] s by auto
  obtain v2 where "snd (fold (applyTeam tm rt dryRun) es (cfg1, w1)) = w1 @ v2"
    using Cons.IH by blast
  then show ?case using s v1 by simp
qed

lemma update_same_projection:
  "map_of al k = Some t \<Longrightarrow> g v = g t \<Longrightarrow>
   map (\<lambda>(n, t). (n, g t)) (AList.update k v al) = map (\<lambda>(n, t). (n, g t)) al"
  by (induction al) (auto split: if_splits)

lemma teamAt_Some: "map_of ts n = Some t \<Longrightarrow> teamAt ts n = t"
  by (simp add: teamAt_def)

lemma applyTeam_excluded:
  assumes "n \<in> fst ` set (Teams cfg)"
  shows "map (\<lambda>(n, t). (n, g (CodeReviewAssignment t))) (Teams (fst (applyTeam tm rt dryRun (n, ch) (cfg, w)))) =
         map (\<lambda>(n, t). (n, g (CodeReviewAssignment t))) (Teams cfg)"
proof -
  from assms obtain t where t: "map_of (Teams cfg) n = Some t"
    by (metis domD dom_map_of_conv_image_fst)
  have u: "\<And>ms. map (\<lambda>(n, t). (n, g (CodeReviewAssignment t)))
        (AList.update n ((teamAt (Teams cfg) n)\<lparr>Members := ms\<rparr>) (Teams cfg)) =
      map (\<lambda>(n, t). (n, g (CodeReviewAssignment t))) (Teams cfg)"
    by (rule update_same_projection [OF t]) (simp add: teamAt_Some [OF t])
  show ?thesis
    by (simp add: applyTeam_def u split: prod.splits option.splits)
qed

lemma applyTeam_keys:
  assumes "n \<in> fst ` set (Teams cfg)"
  shows "map fst (Teams (fst (applyTeam tm rt dryRun (n, ch) (cfg, w)))) = map fst (Teams cfg)"
  using assms by (auto simp: applyTeam_def update_keys split: prod.splits option.splits)

lemma applyFold_excluded:
  "fst ` set chs \<subseteq> fst ` set (Teams cfg) \<Longrightarrow>
   map (\<lambda>(n, t). (n, g (CodeReviewAssignment t))) (Teams (fst (fold (applyTeam tm rt dryRun) chs (cfg, w)))) =
   map (\<lambda>(n, t). (n, g (CodeReviewAssignment t))) (Teams cfg)"
proof (induction chs arbitrary: cfg w)
  case Nil
  then show ?case by simp
next
  case (Cons e es)
  obtain n ch where e: "e = (n, ch)" by (cases e)
  obtain cfg1 w1 where s: "applyTeam tm rt dryRun (n, ch) (cfg, w) = (cfg1, w1)"
    by (cases "applyTeam tm rt dryRun (n, ch) (cfg, w)")
  from Cons.prems e have n: "n \<in> fst ` set (Teams cfg)" by auto
  have p: "map (\<lambda>(n, t). (n, g (CodeReviewAssignment t))) (Teams cfg1) =
      map (\<lambda>(n, t). (n, g (CodeReviewAssignment t))) (Teams cfg)"
    using applyTeam_excluded [OF n, of g tm rt dryRun ch w] s by simp
  have "map fst (Teams cfg1) = map fst (Teams cfg)"
    using applyTeam_keys [OF n, of tm rt dryRun ch w] s by simp
  then have "fst ` set (Teams cfg1) = fst ` set (Teams cfg)" by (metis set_map)
  with Cons.prems e have "fst ` set es \<subseteq> fst ` set (Teams cfg1)" by auto
  from Cons.IH [OF this, of w1] p show ?case by (simp add: e s)
qed

lemma update_key_set: "fst ` set (AList.update k v al) = insert k (fst ` set al)"
proof -
  have "set (map fst (AList.update k v al)) = insert k (set (map fst al))"
    by (auto simp: update_keys)
  then show ?thesis by (simp only: set_map)
qed

lemma diffFold_keys:
  "fst ` set (snd (fold (\<lambda>entry st. snd (diffTeam up entry st)) entries (w, chs))) \<subseteq>
     fst ` set chs \<union> fst ` set entries"
proof (induction entries arbitrary: w chs)
  case Nil
  then show ?case by simp
next
  case (Cons e es)
  obtain n lt where e: "e = (n, lt)" by (cases e)
  obtain t w' chs' where st: "diffTeam up (n, lt) (w, chs) = (t, w', chs')"
    by (cases "diffTeam up (n, lt) (w, chs)")
  have chs': "chs' = (case pendingChange up n lt of None \<Rightarrow> chs | Some ch \<Rightarrow> AList.update n ch chs)"
    using diffTeam_changes [of up n lt w chs] st by simp
  have B: "fst ` set chs' \<subseteq> insert n (fst ` set chs)"
    by (auto simp: chs' update_key_set split: option.splits)
  have A: "fst ` set (snd (fold (\<lambda>entry st. snd (diffTeam up entry st)) es (w', chs'))) \<subseteq>
      fst ` set chs' \<union> fst ` set es"
    by (rule Cons.IH)
  have "fst ` set (snd (fold (\<lambda>entry st. snd (diffTeam up entry st)) es (w', chs'))) \<subseteq>
      fst ` set chs \<union> insert n (fst ` set es)"
    using A B by blast
  then show ?case by (simp add: e st)
qed

section \<open>The whole synchronisation\<close>

lemma diffPass_keys: "fst ` set (snd (diffPass up entries)) \<subseteq> fst ` set entries"
  using diffFold_keys [of up entries "[]" "[]"] by (simp add: diffPass_def)

lemma legalOrder_set: "legalOrder f \<Longrightarrow> set (f xs) = set xs"
  by (metis legalOrder_def set_mset_mset)

lemma membershipPass_excluded:
  assumes "legalOrder (rangeChangesApply rt)" and "fst ` set chs \<subseteq> fst ` set (Teams cfg)"
  shows "map (\<lambda>(n, t). (n, g (CodeReviewAssignment t)))
           (Teams (fst (snd (membershipPass tm rt chs cfg force dryRun w)))) =
         map (\<lambda>(n, t). (n, g (CodeReviewAssignment t))) (Teams cfg)"
proof -
  have k: "fst ` set (rangeChangesApply rt chs) \<subseteq> fst ` set (Teams cfg)"
    using assms by (simp add: legalOrder_set)
  show ?thesis
    using applyFold_excluded [OF k, of g tm rt dryRun "printChanges rt chs w"]
    by (simp add: membershipPass_def split: sum.splits prod.splits)
qed

lemma syncWith_localConfig:
  "localConfig (syncWith tm rt up cfg force dryRun) =
     fst (snd (membershipPass tm rt (snd (diffPass up (rangeTeams rt (Teams cfg)))) cfg force dryRun
       (fst (diffPass up (rangeTeams rt (Teams cfg))))))"
  by (simp add: syncWith_def split: prod.splits option.splits sum.splits)

lemma restore_excluded:
  "lt\<lparr>CodeReviewAssignment := (CodeReviewAssignment lt)\<lparr>ExcludedMembers := None\<rparr>\<rparr>
     \<lparr>CodeReviewAssignment :=
        (CodeReviewAssignment (lt\<lparr>CodeReviewAssignment :=
           (CodeReviewAssignment lt)\<lparr>ExcludedMembers := None\<rparr>\<rparr>))
          \<lparr>ExcludedMembers := ExcludedMembers (CodeReviewAssignment lt)\<rparr>\<rparr> = lt"
  by simp

lemma diffTeam_restores: "fst (diffTeam up (n, lt) st) = lt"
proof -
  obtain w chs where st: "st = (w, chs)" by (cases st)
  show ?thesis
    unfolding st diffTeam_def Let_def prod.case if_distrib [of fst] fst_conv restore_excluded
    by simp
qed

text \<open>
  Claim C9. On every path of \<^verbatim>\<open>SyncTeams\<close> the local configuration keeps, team by team,
  the excluded members it came with: the diff body clears them on its own copy of the
  team only and puts them back before it ends, and the apply loop writes member lists
  only.
\<close>

theorem excluded_members_preserved:
  assumes "legalOrder (rangeTeams rt)" and "legalOrder (rangeChangesApply rt)"
    and "SyncTeams tm rt localCfg force dryRun = Some r"
  shows "map (\<lambda>(n, t). (n, ExcludedMembers (CodeReviewAssignment t))) (Teams (localConfig r)) =
         map (\<lambda>(n, t). (n, ExcludedMembers (CodeReviewAssignment t))) (Teams localCfg) \<and>
         fst (diffTeam upstreamCfg (name, lt) st) = lt"
proof -
  have k: "fst ` set (snd (diffPass up (rangeTeams rt (Teams localCfg)))) \<subseteq> fst ` set (Teams localCfg)"
    for up
    using diffPass_keys [of up "rangeTeams rt (Teams localCfg)"] legalOrder_set [OF assms(1)]
    by simp
  have s: "map (\<lambda>(n, t). (n, ExcludedMembers (CodeReviewAssignment t)))
        (Teams (localConfig (syncWith tm rt up localCfg force dryRun))) =
      map (\<lambda>(n, t). (n, ExcludedMembers (CodeReviewAssignment t))) (Teams localCfg)" for up
    unfolding syncWith_localConfig by (rule membershipPass_excluded [OF assms(2) k])
  have "map (\<lambda>(n, t). (n, ExcludedMembers (CodeReviewAssignment t))) (Teams (localConfig r)) =
      map (\<lambda>(n, t). (n, ExcludedMembers (CodeReviewAssignment t))) (Teams localCfg)"
    using assms(3) s by (auto simp: SyncTeams_def split: option.splits sum.splits)
  then show ?thesis by (simp add: diffTeam_restores)
qed

lemma exampleFetch:
  "\<exists>c. GetCurrentConfig (exampleManager r) = Some (Inr c) \<and> Teams c = Teams exampleRemote"
  by (simp add: GetCurrentConfig_def exampleManager_def serve_def exampleOrg_def pageOf_def cursorOf_def
     teamsLoop.simps membersLoop.simps serveMembers_def exampleTeam_def exampleMember_def storeMembersPage_def
     addMember_def appendSlice_def elems_def sortStrings_def newTeamConfig_def exampleRemote_def)

theorem excluded_members_preserved_witness:
  "legalOrder (rangeTeams (exampleRuntime (\<lambda>p. Inr True))) \<and>
   legalOrder (rangeChangesApply (exampleRuntime (\<lambda>p. Inr True))) \<and>
   (\<exists>r. SyncTeams (exampleManager (\<lambda>w c. None)) (exampleRuntime (\<lambda>p. Inr True))
           exampleLocal False False = Some r \<and>
        map (\<lambda>(n, t). (n, ExcludedMembers (CodeReviewAssignment t))) (Teams (localConfig r)) =
          [(''ops'', Some [\<lparr>Login = ''a''\<rparr>, \<lparr>Login = ''zz''\<rparr>]),
           (''dev'', Some [\<lparr>Login = ''x''\<rparr>])])"
proof -
  have 1: "legalOrder (rangeTeams (exampleRuntime (\<lambda>p. Inr True)))"
    and 2: "legalOrder (rangeChangesApply (exampleRuntime (\<lambda>p. Inr True)))"
    by (simp_all add: exampleRuntime_def legalOrder_rev)
  obtain c where "GetCurrentConfig (exampleManager (\<lambda>w c. None)) = Some (Inr c)"
    using exampleFetch by blast
  then obtain r where 3: "SyncTeams (exampleManager (\<lambda>w c. None)) (exampleRuntime (\<lambda>p. Inr True))
      exampleLocal False False = Some r"
    by (simp add: SyncTeams_def)
  have 4: "map (\<lambda>(n, t). (n, ExcludedMembers (CodeReviewAssignment t))) (Teams (localConfig r)) =
      [(''ops'', Some [\<lparr>Login = ''a''\<rparr>, \<lparr>Login = ''zz''\<rparr>]), (''dev'', Some [\<lparr>Login = ''x''\<rparr>])]"
    using excluded_members_preserved [OF 1 2 3] by (simp add: exampleLocal_def zeroCodeReviewAssignment_def)
  have "\<exists>r. SyncTeams (exampleManager (\<lambda>w c. None)) (exampleRuntime (\<lambda>p. Inr True))
           exampleLocal False False = Some r \<and>
        map (\<lambda>(n, t). (n, ExcludedMembers (CodeReviewAssignment t))) (Teams (localConfig r)) =
          [(''ops'', Some [\<lparr>Login = ''a''\<rparr>, \<lparr>Login = ''zz''\<rparr>]),
           (''dev'', Some [\<lparr>Login = ''x''\<rparr>])]"
    by (rule exI [of _ r]) (rule conjI [OF 3 4])
  then show ?thesis
    by (rule conjI [OF 1 conjI [OF 2]])
qed

lemma remoteCalls_append: "remoteCalls (a @ b) = remoteCalls a @ remoteCalls b"
  by (simp add: remoteCalls_def)

lemma remoteCalls_simps:
  "remoteCalls [] = []"
  "remoteCalls (Stdout m # w) = remoteCalls w"
  "remoteCalls (Stderr m # w) = remoteCalls w"
  "remoteCalls (Remote c # w) = c # remoteCalls w"
  by (simp_all add: remoteCalls_def)

lemma remoteCalls_map_Stdout: "remoteCalls (map Stdout ms) = []"
  by (induction ms) (simp_all add: remoteCalls_simps)

lemma diffFold_remoteCalls:
  "remoteCalls (fst (fold (\<lambda>entry st. snd (diffTeam up entry st)) entries (w, chs))) = remoteCalls w"
proof (induction entries arbitrary: w chs)
  case Nil
  then show ?case by simp
next
  case (Cons e es)
  obtain n lt where e: "e = (n, lt)" by (cases e)
  obtain t w' chs' where st: "diffTeam up (n, lt) (w, chs) = (t, w', chs')"
    by (cases "diffTeam up (n, lt) (w, chs)")
  have "remoteCalls w' = remoteCalls w"
    using st by (auto simp: diffTeam_def Let_def remoteCalls_append remoteCalls_simps split: if_splits)
  then show ?case using Cons.IH [of w' chs'] by (simp add: e st)
qed

lemma diffPass_remoteCalls: "remoteCalls (fst (diffPass up entries)) = []"
  using diffFold_remoteCalls [of up entries "[]" "[]"] by (simp add: diffPass_def remoteCalls_simps)

lemma printChange_remoteCalls: "remoteCalls (concat (map printChange chs)) = []"
  by (induction chs) (auto simp: printChange_def remoteCalls_append remoteCalls_simps)

lemma printChanges_remoteCalls: "remoteCalls (printChanges rt chs w) = remoteCalls w"
  by (simp add: printChanges_def remoteCalls_append remoteCalls_simps printChange_remoteCalls)

text \<open>
  Claim C8. When the operator answers no to the prompts, \<^verbatim>\<open>SyncTeams\<close> returns the local
  configuration as it was, with the nil error, and no mutation has been called.
\<close>

theorem denial_is_no_error:
  assumes "GetCurrentConfig tm = Some (Inr upstreamCfg)"
    and "AskForConfirmation rt ''Continue?'' = Inr False"
    and "AskForConfirmation rt ''Do you want to update CodeReviewAssignments?'' = Inr False"
  shows "\<exists>w. SyncTeams tm rt localCfg False dryRun =
           Some \<lparr>returnedError = None, localConfig = localCfg, events = w\<rparr> \<and>
         remoteCalls w = []"
proof -
  obtain w0 chs where d: "diffPass upstreamCfg (rangeTeams rt (Teams localCfg)) = (w0, chs)"
    by (cases "diffPass upstreamCfg (rangeTeams rt (Teams localCfg))")
  have w0: "remoteCalls w0 = []"
    using diffPass_remoteCalls [of upstreamCfg "rangeTeams rt (Teams localCfg)"] d by simp
  show ?thesis
  proof (cases "chs = []")
    case True
    then show ?thesis
      using w0 by (simp add: SyncTeams_def assms syncWith_def d membershipPass_def policyPass_def)
  next
    case False
    then show ?thesis
      using w0
      by (simp add: SyncTeams_def assms syncWith_def d membershipPass_def policyPass_def
          printChanges_remoteCalls)
  qed
qed

theorem denial_is_no_error_witness:
  "(\<exists>c. GetCurrentConfig (exampleManager (\<lambda>w c. Some ''unreachable'')) = Some (Inr c)) \<and>
   AskForConfirmation (exampleRuntime (\<lambda>p. Inr False)) ''Continue?'' = Inr False \<and>
   AskForConfirmation (exampleRuntime (\<lambda>p. Inr False))
     ''Do you want to update CodeReviewAssignments?'' = Inr False \<and>
   (\<exists>w. SyncTeams (exampleManager (\<lambda>w c. Some ''unreachable'')) (exampleRuntime (\<lambda>p. Inr False))
          exampleLocal False False =
        Some \<lparr>returnedError = None, localConfig = exampleLocal, events = w\<rparr> \<and>
      remoteCalls w = [])"
proof -
  obtain c where 1: "GetCurrentConfig (exampleManager (\<lambda>w c. Some ''unreachable'')) = Some (Inr c)"
    using exampleFetch by blast
  have 2: "AskForConfirmation (exampleRuntime (\<lambda>p. Inr False)) ''Continue?'' = Inr False"
    and 3: "AskForConfirmation (exampleRuntime (\<lambda>p. Inr False))
     ''Do you want to update CodeReviewAssignments?'' = Inr False"
    by (simp_all add: exampleRuntime_def)
  have 0: "\<exists>c. GetCurrentConfig (exampleManager (\<lambda>w c. Some ''unreachable'')) = Some (Inr c)"
    by (rule exI [of _ c]) (rule 1)
  show ?thesis
    by (rule conjI [OF 0 conjI [OF 2 conjI [OF 3 denial_is_no_error [OF 1 2 3]]]])
qed

lemma addMembers_ok:
  "\<forall>w c. respond tm w c = None \<Longrightarrow> snd (addMembers tm rt n us w) = None"
  by (induction us arbitrary: w) simp_all

lemma removeMembers_ok:
  "\<forall>w c. respond tm w c = None \<Longrightarrow> snd (removeMembers tm rt n us w) = None"
  by (induction us arbitrary: w) simp_all

lemma SyncTeamMembers_ok:
  assumes "\<forall>w c. respond tm w c = None"
  shows "snd (SyncTeamMembers tm rt n adds removes w) = None"
proof -
  obtain w1 r where a: "addMembers tm rt n adds w = (w1, r)" by (cases "addMembers tm rt n adds w")
  have "r = None" using addMembers_ok [OF assms, of rt n adds w] a by simp
  then show ?thesis
    using removeMembers_ok [OF assms, of rt n removes w1] a by (simp add: SyncTeamMembers_def)
qed

lemma applyTeam_config_dry:
  assumes "\<forall>w c. respond tm w c = None"
  shows "fst (applyTeam tm rt False e (cfg, w)) = fst (applyTeam tm rt True e (cfg, w'))"
proof -
  obtain n ch where e: "e = (n, ch)" by (cases e)
  obtain w1 where "SyncTeamMembers tm rt n (add ch) (remove ch) w = (w1, None)"
    using SyncTeamMembers_ok [OF assms, of rt n "add ch" "remove ch" w]
    by (cases "SyncTeamMembers tm rt n (add ch) (remove ch) w") simp
  then show ?thesis
    by (simp add: e applyTeam_ok applyTeam_dry)
qed

lemma applyFold_config_dry:
  assumes "\<forall>w c. respond tm w c = None"
  shows "fst (fold (applyTeam tm rt False) chs (cfg, w)) = fst (fold (applyTeam tm rt True) chs (cfg, w'))"
proof (induction chs arbitrary: cfg w w')
  case Nil
  then show ?case by simp
next
  case (Cons e es)
  obtain c1 w1 where 1: "applyTeam tm rt False e (cfg, w) = (c1, w1)"
    by (cases "applyTeam tm rt False e (cfg, w)")
  obtain c2 w2 where 2: "applyTeam tm rt True e (cfg, w') = (c2, w2)"
    by (cases "applyTeam tm rt True e (cfg, w')")
  have "c1 = c2" using applyTeam_config_dry [OF assms, of rt e cfg w w'] 1 2 by simp
  then show ?case using Cons.IH [of c2 w1 w2] by (simp add: 1 2)
qed

lemma applyFold_dry_events:
  "remoteCalls (snd (fold (applyTeam tm rt True) chs (cfg, w))) = remoteCalls w"
proof (induction chs arbitrary: cfg w)
  case Nil
  then show ?case by simp
next
  case (Cons e es)
  obtain n ch where e: "e = (n, ch)" by (cases e)
  show ?case by (simp add: e applyTeam_dry Cons.IH)
qed

lemma updateReviewAssignment_dry:
  "remoteCalls (updateReviewAssignment tm rt True cfg n w) = remoteCalls w"
  by (simp add: updateReviewAssignment_def remoteCalls_append remoteCalls_simps
      remoteCalls_map_Stdout split: prod.splits)

lemma policyFold_dry:
  "remoteCalls (fold (updateReviewAssignment tm rt True cfg) ns w) = remoteCalls w"
  by (induction ns arbitrary: w) (simp_all add: updateReviewAssignment_dry)

lemma membershipPass_dry:
  assumes "\<forall>w c. respond tm w c = None"
  shows "fst (membershipPass tm rt chs cfg force True w) = fst (membershipPass tm rt chs cfg force False w) \<and>
         fst (snd (membershipPass tm rt chs cfg force True w)) =
           fst (snd (membershipPass tm rt chs cfg force False w))"
  using applyFold_config_dry [OF assms, of rt "rangeChangesApply rt chs" cfg
      "printChanges rt chs w" "printChanges rt chs w"]
  by (simp add: membershipPass_def split: sum.splits prod.splits)

lemma membershipPass_dry_events:
  "remoteCalls (snd (snd (membershipPass tm rt chs cfg force True w))) = remoteCalls w"
  using applyFold_dry_events [of tm rt "rangeChangesApply rt chs" cfg "printChanges rt chs w"]
  by (simp add: membershipPass_def printChanges_remoteCalls split: sum.splits prod.splits)

lemma policyPass_dry:
  "(case policyPass tm rt cfg force True w of Inl err \<Rightarrow> True | Inr w' \<Rightarrow> remoteCalls w' = remoteCalls w) \<and>
   isl (policyPass tm rt cfg force True w) = isl (policyPass tm rt cfg force False w') \<and>
   (isl (policyPass tm rt cfg force True w) \<longrightarrow>
      projl (policyPass tm rt cfg force True w) = projl (policyPass tm rt cfg force False w'))"
  by (simp add: policyPass_def policyFold_dry split: sum.splits)

lemma syncWith_dry:
  assumes "\<forall>w c. respond tm w c = None"
  shows "localConfig (syncWith tm rt up cfg force True) = localConfig (syncWith tm rt up cfg force False) \<and>
         returnedError (syncWith tm rt up cfg force True) = returnedError (syncWith tm rt up cfg force False)"
proof -
  obtain w0 chs where d: "diffPass up (rangeTeams rt (Teams cfg)) = (w0, chs)"
    by (cases "diffPass up (rangeTeams rt (Teams cfg))")
  obtain e1 c1 w1 where m1: "membershipPass tm rt chs cfg force True w0 = (e1, c1, w1)"
    by (cases "membershipPass tm rt chs cfg force True w0")
  obtain e2 c2 w2 where m2: "membershipPass tm rt chs cfg force False w0 = (e2, c2, w2)"
    by (cases "membershipPass tm rt chs cfg force False w0")
  have eq: "e1 = e2" "c1 = c2" using membershipPass_dry [OF assms, of rt chs cfg force w0] m1 m2 by simp_all
  show ?thesis
    using policyPass_dry [where tm = tm and rt = rt and cfg = c2 and force = force and w = w1 and w' = w2]
    by (cases e2; cases "policyPass tm rt c2 force True w1"; cases "policyPass tm rt c2 force False w2")
       (simp_all add: syncWith_def d m1 m2 eq)
qed

lemma policyPass_dry_events:
  "policyPass tm rt cfg force True w = Inr w' \<Longrightarrow> remoteCalls w' = remoteCalls w"
  by (auto simp: policyPass_def policyFold_dry split: sum.splits if_splits)

lemma syncWith_dry_events:
  "remoteCalls (events (syncWith tm rt up cfg force True)) = []"
proof -
  obtain w0 chs where d: "diffPass up (rangeTeams rt (Teams cfg)) = (w0, chs)"
    by (cases "diffPass up (rangeTeams rt (Teams cfg))")
  have w0: "remoteCalls w0 = []"
    using diffPass_remoteCalls [of up "rangeTeams rt (Teams cfg)"] d by simp
  obtain e1 c1 w1 where m1: "membershipPass tm rt chs cfg force True w0 = (e1, c1, w1)"
    by (cases "membershipPass tm rt chs cfg force True w0")
  have w1: "remoteCalls w1 = []"
    using membershipPass_dry_events [of tm rt chs cfg force w0] m1 w0 by simp
  show ?thesis
  proof (cases e1)
    case (Some err)
    then show ?thesis by (simp add: syncWith_def d m1 w1)
  next
    case None
    show ?thesis
    proof (cases "policyPass tm rt c1 force True w1")
      case (Inl err)
      then show ?thesis by (simp add: syncWith_def d m1 None w1)
    next
      case (Inr w2)
      then have "remoteCalls w2 = []" using policyPass_dry_events [OF Inr] w1 by simp
      then show ?thesis by (simp add: syncWith_def d m1 None Inr)
    qed
  qed
qed

text \<open>
  Claim C3. With the same local configuration, the same answers of the operator and a
  remote side on which every mutation succeeds, a dry run leaves the local configuration
  exactly as the real run does and returns the same error, and the dry run calls no
  mutation.
\<close>

theorem dry_run_same_model:
  assumes "\<forall>w c. respond tm w c = None"
  shows "map_option localConfig (SyncTeams tm rt localCfg force True) =
           map_option localConfig (SyncTeams tm rt localCfg force False) \<and>
         map_option returnedError (SyncTeams tm rt localCfg force True) =
           map_option returnedError (SyncTeams tm rt localCfg force False) \<and>
         map_option (\<lambda>r. remoteCalls (events r)) (SyncTeams tm rt localCfg force True) =
           map_option (\<lambda>r. []) (SyncTeams tm rt localCfg force True)"
  using syncWith_dry [OF assms] syncWith_dry_events
  by (simp add: SyncTeams_def remoteCalls_simps split: option.splits sum.splits)

theorem dry_run_same_model_witness:
  "(\<forall>w c. respond (exampleManager (\<lambda>w c. None)) w c = None) \<and>
   (\<exists>r1 r2.
      SyncTeams (exampleManager (\<lambda>w c. None)) (exampleRuntime (\<lambda>p. Inr True)) exampleLocal False True
        = Some r1 \<and>
      SyncTeams (exampleManager (\<lambda>w c. None)) (exampleRuntime (\<lambda>p. Inr True)) exampleLocal False False
        = Some r2 \<and>
      localConfig r1 = localConfig r2 \<and> returnedError r1 = returnedError r2 \<and>
      remoteCalls (events r1) = [])"
proof -
  let ?tm = "exampleManager (\<lambda>w c. None)" and ?rt = "exampleRuntime (\<lambda>p. Inr True)"
  have h: "\<forall>w c. respond ?tm w c = None" by (simp add: exampleManager_def)
  obtain c where c: "GetCurrentConfig ?tm = Some (Inr c)" using exampleFetch by blast
  have 1: "SyncTeams ?tm ?rt exampleLocal False True = Some (syncWith ?tm ?rt c exampleLocal False True)"
    and 2: "SyncTeams ?tm ?rt exampleLocal False False = Some (syncWith ?tm ?rt c exampleLocal False False)"
    by (simp_all add: SyncTeams_def c)
  have 3: "localConfig (syncWith ?tm ?rt c exampleLocal False True) =
        localConfig (syncWith ?tm ?rt c exampleLocal False False) \<and>
      returnedError (syncWith ?tm ?rt c exampleLocal False True) =
        returnedError (syncWith ?tm ?rt c exampleLocal False False) \<and>
      remoteCalls (events (syncWith ?tm ?rt c exampleLocal False True)) = []"
    using dry_run_same_model [OF h, of ?rt exampleLocal False] by (simp add: 1 2)
  have "\<exists>r1 r2.
      SyncTeams ?tm ?rt exampleLocal False True = Some r1 \<and>
      SyncTeams ?tm ?rt exampleLocal False False = Some r2 \<and>
      localConfig r1 = localConfig r2 \<and> returnedError r1 = returnedError r2 \<and>
      remoteCalls (events r1) = []"
    apply (rule exI [of _ "syncWith ?tm ?rt c exampleLocal False True"])
    apply (rule exI [of _ "syncWith ?tm ?rt c exampleLocal False False"])
    using 1 2 3 apply simp
    done
  with h show ?thesis by (rule conjI)
qed

lemma policyPass_forced: "\<exists>w'. policyPass tm rt cfg True dryRun w = Inr w'"
  by (simp add: policyPass_def)

lemma syncWith_forced: "returnedError (syncWith tm rt up cfg True dryRun) = None"
proof -
  obtain w0 chs where d: "diffPass up (rangeTeams rt (Teams cfg)) = (w0, chs)"
    by (cases "diffPass up (rangeTeams rt (Teams cfg))")
  obtain e1 c1 w1 where m1: "membershipPass tm rt chs cfg True dryRun w0 = (e1, c1, w1)"
    by (cases "membershipPass tm rt chs cfg True dryRun w0")
  have e1: "e1 = None" using m1 by (auto simp: membershipPass_def split: if_splits prod.splits)
  obtain w2 where "policyPass tm rt c1 True dryRun w1 = Inr w2" using policyPass_forced by blast
  then show ?thesis by (simp add: syncWith_def d m1 e1)
qed

text \<open>
  Claim C7. When the synchronisation of one team fails in the confirmed membership pass,
  the failure is printed, the team keeps its entry, and the pass goes on with the teams
  after it, from the configuration as it was. A forced run returns the nil error
  whatever the mutations answer.
\<close>

theorem failed_team_is_skipped:
  assumes "distinct (map fst (pre @ (n, ch) # post))"
    and "fold (applyTeam tm rt False) pre (cfg, w) = (cfg1, w1)"
    and "SyncTeamMembers tm rt n (add ch) (remove ch) w1 = (w2, Some err)"
  shows "fold (applyTeam tm rt False) (pre @ (n, ch) # post) (cfg, w) =
           fold (applyTeam tm rt False) post (cfg1, w2 @ [Stderr (ErrUnableToSyncTeam n err)]) \<and>
         map_of (Teams (fst (fold (applyTeam tm rt False) (pre @ (n, ch) # post) (cfg, w)))) n =
           map_of (Teams cfg) n \<and>
         Stderr (ErrUnableToSyncTeam n err) \<in>
           set (snd (fold (applyTeam tm rt False) (pre @ (n, ch) # post) (cfg, w))) \<and>
         returnedError (syncWith tm rt upstreamCfg localCfg True False) = None"
proof -
  let ?st = "(cfg1, w2 @ [Stderr (ErrUnableToSyncTeam n err)])"
  have step: "fold (applyTeam tm rt False) (pre @ (n, ch) # post) (cfg, w) =
      fold (applyTeam tm rt False) post ?st"
    by (simp add: assms(2) applyTeam_failed [OF assms(3)])
  from assms(1) have npre: "n \<notin> fst ` set pre" and npost: "n \<notin> fst ` set post" by auto
  have "map_of (Teams cfg1) n = map_of (Teams cfg) n"
    using applyFold_other [OF npre, of tm rt False cfg w] assms(2) by simp
  moreover have "map_of (Teams (fst (fold (applyTeam tm rt False) post ?st))) n = map_of (Teams cfg1) n"
    using applyFold_other [OF npost] by simp
  moreover obtain v where "snd (fold (applyTeam tm rt False) post ?st) =
      (w2 @ [Stderr (ErrUnableToSyncTeam n err)]) @ v"
    using applyFold_events_prefix by blast
  ultimately show ?thesis unfolding step by (simp add: syncWith_forced)
qed

theorem failed_team_is_skipped_witness:
  "distinct (map fst ([] @ (''ops'', \<lparr>add = [''a''], remove = [''c'']\<rparr>) #
      [(''dev'', \<lparr>add = [''y''], remove = []\<rparr>)])) \<and>
   snd (SyncTeamMembers (exampleManager exampleFailure) (exampleRuntime (\<lambda>p. Inr True))
      ''ops'' [''a''] [''c''] []) = Some ''boom'' \<and>
   map_of (Teams (fst (fold (applyTeam (exampleManager exampleFailure) (exampleRuntime (\<lambda>p. Inr True)) False)
      ([] @ (''ops'', \<lparr>add = [''a''], remove = [''c'']\<rparr>) # [(''dev'', \<lparr>add = [''y''], remove = []\<rparr>)])
      (exampleLocal, [])))) ''ops'' = map_of (Teams exampleLocal) ''ops'' \<and>
   Members (teamAt (Teams (fst (fold (applyTeam (exampleManager exampleFailure) (exampleRuntime (\<lambda>p. Inr True)) False)
      ([] @ (''ops'', \<lparr>add = [''a''], remove = [''c'']\<rparr>) # [(''dev'', \<lparr>add = [''y''], remove = []\<rparr>)])
      (exampleLocal, [])))) ''dev'') = Some [''y'', ''x''] \<and>
   Stderr (ErrUnableToSyncTeam ''ops'' ''boom'') \<in>
     set (snd (fold (applyTeam (exampleManager exampleFailure) (exampleRuntime (\<lambda>p. Inr True)) False)
      ([] @ (''ops'', \<lparr>add = [''a''], remove = [''c'']\<rparr>) # [(''dev'', \<lparr>add = [''y''], remove = []\<rparr>)])
      (exampleLocal, [])))"
proof -
  let ?tm = "exampleManager exampleFailure" and ?rt = "exampleRuntime (\<lambda>p. Inr True)"
  let ?ch = "\<lparr>add = [''a''], remove = [''c'']\<rparr>"
  let ?post = "[(''dev'', \<lparr>add = [''y''], remove = []\<rparr>)]"
  have sl: "slug asciiToLower ''ops'' = ''ops''" and sd: "slug asciiToLower ''dev'' = ''dev''"
    by code_simp+
  have 1: "distinct (map fst ([] @ (''ops'', ?ch) # ?post))" by simp
  have 2: "fold (applyTeam ?tm ?rt False) [] (exampleLocal, []) = (exampleLocal, [])" by simp
  have 3: "SyncTeamMembers ?tm ?rt ''ops'' (add ?ch) (remove ?ch) [] =
      ([Stdout (MsgAddingMember ''a'' ''ops''),
        Remote (AddTeamMembershipBySlug ''org'' ''ops'' ''a'' ''member'')], Some ''boom'')"
    by (simp add: SyncTeamMembers_def exampleManager_def exampleFailure_def exampleRuntime_def sl)
  note t = failed_team_is_skipped [OF 1 2 3, of exampleRemote exampleLocal]
  have 4: "fold (applyTeam ?tm ?rt False) ?post
      (exampleLocal, [Stdout (MsgAddingMember ''a'' ''ops''),
        Remote (AddTeamMembershipBySlug ''org'' ''ops'' ''a'' ''member'')] @
        [Stderr (ErrUnableToSyncTeam ''ops'' ''boom'')]) =
      fold (applyTeam ?tm ?rt False) ([] @ (''ops'', ?ch) # ?post) (exampleLocal, [])"
    using t by simp
  have 5: "Members (teamAt (Teams (fst (fold (applyTeam ?tm ?rt False) ?post
      (exampleLocal, [Stdout (MsgAddingMember ''a'' ''ops''),
        Remote (AddTeamMembershipBySlug ''org'' ''ops'' ''a'' ''member'')] @
        [Stderr (ErrUnableToSyncTeam ''ops'' ''boom'')])))) ''dev'') = Some [''y'', ''x'']"
    by (simp add: applyTeam_def SyncTeamMembers_def exampleManager_def exampleFailure_def
        exampleRuntime_def sd exampleLocal_def teamAt_def elems_def keyInsert_def keyDelete_def
        update_conv')
  show ?thesis
    using t 3 5 unfolding 4 by simp
qed

lemma applyTeam_stored:
  assumes "dryRun \<or> snd (SyncTeamMembers tm rt n (add ch) (remove ch) w) = None"
  shows "map_of (Teams (fst (applyTeam tm rt dryRun (n, ch) (cfg, w)))) n =
     Some ((teamAt (Teams cfg) n)\<lparr>Members := Some (recomputedMembers rt n ch (teamAt (Teams cfg) n))\<rparr>)"
proof (cases dryRun)
  case True
  then show ?thesis by (simp add: applyTeam_dry update_conv')
next
  case False
  with assms obtain w1 where "SyncTeamMembers tm rt n (add ch) (remove ch) w = (w1, None)"
    by (cases "SyncTeamMembers tm rt n (add ch) (remove ch) w") simp
  then show ?thesis using False by (simp add: applyTeam_ok update_conv')
qed

text \<open>
  Claim C2, as the code has it. For a team with a confirmed pending change whose
  synchronisation succeeded or was skipped by the dry run, the member list that the
  apply loop stores is the original members with the additions and without the
  removals, each member once; the rest of the team is as before, and the later
  iterations leave the entry alone. The list is stored in the order in which the
  runtime ranges over the member set.
\<close>

theorem apply_recomputes_members:
  assumes "distinct (map fst (pre @ (n, ch) # post))"
    and "fold (applyTeam tm rt dryRun) pre (cfg, w) = (cfg1, w1)"
    and "dryRun \<or> snd (SyncTeamMembers tm rt n (add ch) (remove ch) w1) = None"
    and "legalOrder (rangeTeamMembers rt n)"
    and "set (add ch) \<inter> set (remove ch) = {}"
    and "map_of (Teams cfg) n = Some t"
  shows "\<exists>ms. map_of (Teams (fst (fold (applyTeam tm rt dryRun) (pre @ (n, ch) # post) (cfg, w)))) n =
           Some (t\<lparr>Members := Some ms\<rparr>) \<and>
         distinct ms \<and>
         set ms = (set (elems (Members t)) \<union> set (add ch)) - set (remove ch)"
proof -
  from assms(1) have npre: "n \<notin> fst ` set pre" and npost: "n \<notin> fst ` set post" by auto
  have "map_of (Teams cfg1) n = map_of (Teams cfg) n"
    using applyFold_other [OF npre, of tm rt dryRun cfg w] assms(2) by simp
  then have t1: "teamAt (Teams cfg1) n = t" using assms(6) by (simp add: teamAt_def)
  obtain cfg2 w2 where s: "applyTeam tm rt dryRun (n, ch) (cfg1, w1) = (cfg2, w2)"
    by (cases "applyTeam tm rt dryRun (n, ch) (cfg1, w1)")
  have 2: "map_of (Teams cfg2) n = Some (t\<lparr>Members := Some (recomputedMembers rt n ch t)\<rparr>)"
    using applyTeam_stored [OF assms(3), of cfg1] s t1 by simp
  have "fold (applyTeam tm rt dryRun) (pre @ (n, ch) # post) (cfg, w) =
      fold (applyTeam tm rt dryRun) post (cfg2, w2)"
    by (simp add: assms(2) s)
  then have 3: "map_of (Teams (fst (fold (applyTeam tm rt dryRun) (pre @ (n, ch) # post) (cfg, w)))) n =
      Some (t\<lparr>Members := Some (recomputedMembers rt n ch t)\<rparr>)"
    using applyFold_other [OF npost, of tm rt dryRun cfg2 w2] 2 by simp
  have 4: "distinct (recomputedMembers rt n ch t)"
    and 5: "set (recomputedMembers rt n ch t) = (set (elems (Members t)) - set (remove ch)) \<union> set (add ch)"
    using recomputedMembers_set [OF assms(4), of ch t] by simp_all
  have 6: "set (recomputedMembers rt n ch t) = (set (elems (Members t)) \<union> set (add ch)) - set (remove ch)"
    using 5 assms(5) by auto
  show ?thesis
    by (rule exI [of _ "recomputedMembers rt n ch t"]) (simp only: 3 4 6 simp_thms)
qed

theorem apply_recomputes_members_witness:
  "distinct (map fst ([] @ (''ops'', \<lparr>add = [''a''], remove = [''c'']\<rparr>) #
      [(''dev'', \<lparr>add = [''y''], remove = []\<rparr>)])) \<and>
   legalOrder (rangeTeamMembers (exampleRuntime (\<lambda>p. Inr True)) ''ops'') \<and>
   set [''a''] \<inter> set [''c''] = ({} :: string set) \<and>
   (\<exists>ms. Members (teamAt (Teams (fst (fold
        (applyTeam (exampleManager (\<lambda>w c. None)) (exampleRuntime (\<lambda>p. Inr True)) True)
        ([] @ (''ops'', \<lparr>add = [''a''], remove = [''c'']\<rparr>) # [(''dev'', \<lparr>add = [''y''], remove = []\<rparr>)])
        (exampleLocal, [])))) ''ops'') = Some ms \<and>
      distinct ms \<and> set ms = {''a'', ''b''})"
proof -
  let ?tm = "exampleManager (\<lambda>w c. None)" and ?rt = "exampleRuntime (\<lambda>p. Inr True)"
  let ?ch = "\<lparr>add = [''a''], remove = [''c'']\<rparr>"
  let ?post = "[(''dev'', \<lparr>add = [''y''], remove = []\<rparr>)]"
  let ?t = "\<lparr>ID = ''T1'', Members = Some [''a'', ''b''],
            CodeReviewAssignment = zeroCodeReviewAssignment
              \<lparr>ExcludedMembers := Some [\<lparr>Login = ''a''\<rparr>, \<lparr>Login = ''zz''\<rparr>]\<rparr>\<rparr>"
  have 1: "distinct (map fst ([] @ (''ops'', ?ch) # ?post))" by simp
  have 2: "fold (applyTeam ?tm ?rt True) [] (exampleLocal, []) = (exampleLocal, [])" by simp
  have 3: "True \<or> snd (SyncTeamMembers ?tm ?rt ''ops'' (add ?ch) (remove ?ch) []) = None" by simp
  have 4: "legalOrder (rangeTeamMembers ?rt ''ops'')" by (simp add: exampleRuntime_def legalOrder_rev)
  have 5: "set (add ?ch) \<inter> set (remove ?ch) = {}" by simp
  have 6: "map_of (Teams exampleLocal) ''ops'' = Some ?t" by (simp add: exampleLocal_def)
  obtain ms where ms: "map_of (Teams (fst (fold (applyTeam ?tm ?rt True)
        ([] @ (''ops'', ?ch) # ?post) (exampleLocal, [])))) ''ops'' = Some (?t\<lparr>Members := Some ms\<rparr>)"
      "distinct ms" "set ms = (set (elems (Members ?t)) \<union> set (add ?ch)) - set (remove ?ch)"
    using apply_recomputes_members [OF 1 2 3 4 5 6] by blast
  have 7: "Members (teamAt (Teams (fst (fold (applyTeam ?tm ?rt True)
        ([] @ (''ops'', ?ch) # ?post) (exampleLocal, [])))) ''ops'') = Some ms"
    unfolding teamAt_def ms(1) by simp
  have 8: "set ms = {''a'', ''b''}" using ms(3) by (simp add: elems_def)
  have "\<exists>ms. Members (teamAt (Teams (fst (fold (applyTeam ?tm ?rt True)
        ([] @ (''ops'', ?ch) # ?post) (exampleLocal, [])))) ''ops'') = Some ms \<and>
      distinct ms \<and> set ms = {''a'', ''b''}"
    by (rule exI [of _ ms]) (simp only: 7 ms(2) 8 simp_thms)
  with 1 4 show ?thesis by simp
qed

text \<open>
  The list is not sorted: when the runtime ranges over the member set of \<open>ops\<close> from
  the last key to the first, the synchronisation of the example stores b before a.
\<close>

theorem apply_stores_unsorted:
  "legalRuntime (exampleRuntime (\<lambda>p. Inr True)) \<and>
   Members (teamAt (Teams (localConfig
      (syncWith (exampleManager (\<lambda>w c. None)) (exampleRuntime (\<lambda>p. Inr True))
         exampleRemote exampleLocal False False))) ''ops'') = Some [''b'', ''a''] \<and>
   \<not> sorted [''b'', ''a'']"
proof -
  have 1: "legalRuntime (exampleRuntime (\<lambda>p. Inr True))"
    by (simp add: legalRuntime_def exampleRuntime_def legalOrder_rev)
  have sl: "slug asciiToLower ''ops'' = ''ops''" by code_simp
  have r: "rangeTeams (exampleRuntime (\<lambda>p. Inr True)) = rev"
    by (simp add: exampleRuntime_def)
  have d: "diffPass exampleRemote (rev (Teams exampleLocal)) =
      ([Stdout (MsgOutOfSync ''ops'')], [(''ops'', \<lparr>add = [''a''], remove = [''c'']\<rparr>)])"
    by (simp add: diffPass_def diffTeam_def exampleRemote_def exampleLocal_def teamAt_def
        zeroCodeReviewAssignment_def NotIn_def elems_def Let_def)
  have 2: "Members (teamAt (Teams (localConfig
      (syncWith (exampleManager (\<lambda>w c. None)) (exampleRuntime (\<lambda>p. Inr True))
         exampleRemote exampleLocal False False))) ''ops'') = Some [''b'', ''a'']"
    unfolding syncWith_localConfig r d snd_conv fst_conv
    by (simp add: exampleRuntime_def membershipPass_def applyTeam_def SyncTeamMembers_def
        exampleManager_def sl exampleLocal_def teamAt_def elems_def keyInsert_def keyDelete_def
        update_conv')
  have 3: "\<not> sorted [''b'', ''a'']" by simp
  show ?thesis using 1 2 3 by simp
qed

section \<open>The fetch against a paginated organization\<close>

lemma storeMembersPage_storePage:
  "storeMembersPage t teamNode teamCfg c = storePage (team_Name t) (MembersNodes teamNode) (teamCfg, c)"
  by (simp add: storeMembersPage_def storePage_def)

lemma WithID_served:
  "distinct (map (team_ID \<circ> fst) page) \<Longrightarrow> td \<in> set page \<Longrightarrow>
   WithID (map (serveMembers j) page) (team_ID (fst td)) = Inr (serveMembers j td)"
proof (induction page)
  case Nil
  then show ?case by simp
next
  case (Cons p ps)
  show ?case
  proof (cases "p = td")
    case True
    then show ?thesis by (simp add: serveMembers_def)
  next
    case False
    with Cons.prems have in_ps: "td \<in> set ps" by simp
    with Cons.prems have "team_ID (fst p) \<noteq> team_ID (fst td)" by (auto simp: image_iff)
    then show ?thesis using Cons.IH in_ps Cons.prems by (simp add: serveMembers_def)
  qed
qed

lemma served_nodes:
  "j < length (servedPages pages) \<Longrightarrow>
   MembersNodes (serveMembers j (t, pages)) = servedPages pages ! j \<and>
   HasNextPage (MembersPageInfo (serveMembers j (t, pages))) = (Suc j < length (servedPages pages)) \<and>
   EndCursor (MembersPageInfo (serveMembers j (t, pages))) = cursorOf (Suc j)"
  by (auto simp: serveMembers_def servedPages_def)

lemma pageOf_cursorOf: "pageOf (Some (cursorOf n)) = n"
  by (simp add: pageOf_def cursorOf_def)

lemma serve_nodes:
  "i < length org \<Longrightarrow> pageOf (teamsCursor vars) = i \<Longrightarrow> pageOf (membersCursor vars) = j \<Longrightarrow>
   serve org vars =
     Inr \<lparr>Nodes = map (serveMembers j) (org ! i),
          PageInfo = \<lparr>EndCursor = cursorOf (Suc i), HasNextPage = (Suc i < length org)\<rparr>\<rparr>"
  by (simp add: serve_def)

lemma membersLoop_served:
  assumes gq: "gqlQuery tm = serve org"
    and i: "i < length org"
    and td: "td \<in> set (org ! i)"
    and dist: "distinct (map (team_ID \<circ> fst) (org ! i))"
    and idn: "team_ID t = team_ID (fst td)" "team_Name t = team_Name (fst td)"
  shows "j < length (servedPages (snd td)) \<Longrightarrow> pageOf (teamsCursor vars) = i \<Longrightarrow>
    (if requery then pageOf (membersCursor vars) = j
     else j = 0 \<and> Nodes result = map (serveMembers 0) (org ! i)) \<Longrightarrow>
    \<exists>vars'. membersLoop tm result t requery teamCfg c vars =
        Some (Inr (snd (fold (storePage (team_Name (fst td))) (drop j (servedPages (snd td))) (teamCfg, c)), vars')) \<and>
      teamsCursor vars' = teamsCursor vars"
proof (induction "length (servedPages (snd td)) - j" arbitrary: j requery teamCfg c vars)
  case 0
  then show ?case by simp
next
  case (Suc k)
  let ?sp = "servedPages (snd td)"
  obtain t0 pages where tdeq: "td = (t0, pages)" by (cases td)
  have nodes: "(case (if requery then
              (case gqlQuery tm vars of Inl err \<Rightarrow> Inl (RequeryMembersFailed err)
               | Inr r \<Rightarrow> Inr r)
            else Inr result) of Inl err \<Rightarrow> Inl err | Inr r \<Rightarrow> Inr (Nodes r)) =
      Inr (map (serveMembers j) (org ! i))"
    using Suc.prems(3) serve_nodes [OF i Suc.prems(2), of j] by (auto simp: gq)
  then obtain innerResult where inner:
    "(if requery then
              (case gqlQuery tm vars of Inl err \<Rightarrow> Inl (RequeryMembersFailed err)
               | Inr r \<Rightarrow> Inr r)
            else Inr result) = Inr innerResult"
    and innerNodes: "Nodes innerResult = map (serveMembers j) (org ! i)"
    by (auto split: sum.splits)
  have wid: "WithID (Nodes innerResult) (team_ID (fst td)) = Inr (serveMembers j td)"
    using WithID_served [OF dist td, of j] by (simp add: innerNodes)
  have sn: "MembersNodes (serveMembers j td) = ?sp ! j"
    and hn: "HasNextPage (MembersPageInfo (serveMembers j td)) = (Suc j < length ?sp)"
    and ec: "EndCursor (MembersPageInfo (serveMembers j td)) = cursorOf (Suc j)"
    using served_nodes [of j pages t0] Suc.prems(1) by (simp_all add: tdeq)
  obtain teamCfg2 c2 where sp: "storePage (team_Name (fst td)) (?sp ! j) (teamCfg, c) = (teamCfg2, c2)"
    by (cases "storePage (team_Name (fst td)) (?sp ! j) (teamCfg, c)")
  have dr: "drop j ?sp = (?sp ! j) # drop (Suc j) ?sp"
    using Suc.prems(1) by (simp add: Cons_nth_drop_Suc)
  show ?case
  proof (cases "Suc j < length ?sp")
    case False
    then have last: "drop (Suc j) ?sp = []" by simp
    have "membersLoop tm result t requery teamCfg c vars = Some (Inr (c2, vars))"
      by (subst membersLoop.simps)
        (simp add: inner wid storeMembersPage_storePage idn sn sp hn False)
    then show ?thesis by (simp add: dr last sp)
  next
    case True
    let ?vars = "vars\<lparr>membersCursor := Some (cursorOf (Suc j))\<rparr>"
    have step: "membersLoop tm result t requery teamCfg c vars =
        membersLoop tm result t True teamCfg2 c2 ?vars"
      by (subst membersLoop.simps)
        (simp add: inner wid storeMembersPage_storePage idn sn sp hn True ec)
    have k: "k = length ?sp - Suc j" using Suc.hyps(2) by simp
    have "\<exists>vars'. membersLoop tm result t True teamCfg2 c2 ?vars =
        Some (Inr (snd (fold (storePage (team_Name (fst td))) (drop (Suc j) ?sp) (teamCfg2, c2)), vars')) \<and>
      teamsCursor vars' = teamsCursor ?vars"
      by (rule Suc.hyps(1) [OF k True]) (simp_all add: Suc.prems(2) pageOf_cursorOf)
    then show ?thesis by (simp add: step dr sp)
  qed
qed

lemma newTeamConfig_served: "newTeamConfig (serveMembers j td) = newTeamConfig (fst td)"
  by (simp add: newTeamConfig_def serveMembers_def)

lemma servedPages_nonempty: "0 < length (servedPages pages)"
  by (simp add: servedPages_def)

lemma teamNodesLoop_served:
  assumes gq: "gqlQuery tm = serve org"
    and i: "i < length org"
    and dist: "distinct (map (team_ID \<circ> fst) (org ! i))"
    and res: "Nodes result = map (serveMembers 0) (org ! i)"
  shows "set tds \<subseteq> set (org ! i) \<Longrightarrow> pageOf (teamsCursor vars) = i \<Longrightarrow>
    \<exists>vars'. teamNodesLoop tm result (map (serveMembers 0) tds) c vars =
        Some (Inr (fold storeTeam tds c, vars')) \<and>
      teamsCursor vars' = teamsCursor vars"
proof (induction tds arbitrary: c vars)
  case Nil
  then show ?case by simp
next
  case (Cons td tds)
  let ?t = "serveMembers 0 td"
  let ?init = "case map_of (Teams c) (team_Name ?t) of
                Some teamCfg \<Rightarrow> teamCfg | None \<Rightarrow> newTeamConfig ?t"
  from Cons.prems have td: "td \<in> set (org ! i)" and sub: "set tds \<subseteq> set (org ! i)" by auto
  have idn: "team_ID ?t = team_ID (fst td)" "team_Name ?t = team_Name (fst td)"
    by (simp_all add: serveMembers_def)
  obtain vars1 where m: "membersLoop tm result ?t False ?init c vars =
        Some (Inr (snd (fold (storePage (team_Name (fst td))) (drop 0 (servedPages (snd td))) (?init, c)), vars1))"
      and v1: "teamsCursor vars1 = teamsCursor vars"
    using membersLoop_served [OF gq i td dist idn servedPages_nonempty Cons.prems(2),
        of False result ?init c] res
    by auto
  have st: "snd (fold (storePage (team_Name (fst td))) (drop 0 (servedPages (snd td))) (?init, c)) =
      storeTeam td c"
    by (simp add: storeTeam_def idn newTeamConfig_served cong: option.case_cong)
  obtain vars' where "teamNodesLoop tm result (map (serveMembers 0) tds) (storeTeam td c) vars1 =
        Some (Inr (fold storeTeam tds (storeTeam td c), vars'))"
      and "teamsCursor vars' = teamsCursor vars1"
    using Cons.IH [OF sub, of vars1 "storeTeam td c"] Cons.prems(2) v1 by auto
  then show ?case
    using m v1 unfolding st by simp
qed

lemma teamsLoop_served:
  assumes gq: "gqlQuery tm = serve org"
    and dist: "\<forall>page \<in> set org. distinct (map (team_ID \<circ> fst) page)"
  shows "i < length org \<Longrightarrow>
    (if requery then pageOf (teamsCursor vars) = i \<and> membersCursor vars = None
     else i = 0 \<and> teamsCursor vars = None \<and>
          serve org \<lparr>teamsCursor = None, membersCursor = None\<rparr> = Inr result) \<Longrightarrow>
    teamsLoop tm requery result c vars = Some (Inr (fold storeTeam (concat (drop i org)) c))"
proof (induction "length org - i" arbitrary: i requery result c vars)
  case 0
  then show ?case by simp
next
  case (Suc k)
  define r where "r = \<lparr>Nodes = map (serveMembers 0) (org ! i),
          PageInfo = \<lparr>EndCursor = cursorOf (Suc i), HasNextPage = (Suc i < length org)\<rparr>\<rparr>"
  have rn: "Nodes r = map (serveMembers 0) (org ! i)"
    and rh: "HasNextPage (PageInfo r) = (Suc i < length org)"
    and re: "EndCursor (PageInfo r) = cursorOf (Suc i)"
    by (simp_all add: r_def)
  have pc: "pageOf (teamsCursor vars) = i"
    using Suc.prems(2) by (auto simp: pageOf_def split: if_splits)
  have inner: "(if requery then
              (case gqlQuery tm vars of Inl err \<Rightarrow> Inl (RequeryTeamsFailed err)
               | Inr r \<Rightarrow> Inr r)
            else Inr result) = Inr r"
  proof (cases requery)
    case True
    with Suc.prems(2) have "pageOf (membersCursor vars) = 0" by (simp add: pageOf_def)
    then show ?thesis using True serve_nodes [OF Suc.prems(1) pc, of 0] by (simp add: gq r_def)
  next
    case False
    with Suc.prems(2) have "serve org \<lparr>teamsCursor = None, membersCursor = None\<rparr> = Inr result"
      and "i = 0" by simp_all
    moreover have "serve org \<lparr>teamsCursor = None, membersCursor = None\<rparr> = Inr r"
      using serve_nodes [OF Suc.prems(1), of "\<lparr>teamsCursor = None, membersCursor = None\<rparr>" 0] \<open>i = 0\<close>
      by (simp add: pageOf_def r_def)
    ultimately show ?thesis using False by simp
  qed
  have d: "distinct (map (team_ID \<circ> fst) (org ! i))"
    using dist Suc.prems(1) by simp
  obtain vars1 where tn: "teamNodesLoop tm r (Nodes r) c vars =
        Some (Inr (fold storeTeam (org ! i) c, vars1))"
    using teamNodesLoop_served [OF gq Suc.prems(1) d rn, of "org ! i" vars c] pc
    by (auto simp: rn)
  have dr: "drop i org = (org ! i) # drop (Suc i) org"
    using Suc.prems(1) by (simp add: Cons_nth_drop_Suc)
  show ?case
  proof (cases "Suc i < length org")
    case False
    then have "drop (Suc i) org = []" by simp
    moreover have "teamsLoop tm requery result c vars = Some (Inr (fold storeTeam (org ! i) c))"
      by (subst teamsLoop.simps) (simp add: inner tn rh False)
    ultimately show ?thesis by (simp add: dr)
  next
    case True
    let ?vars = "vars1\<lparr>teamsCursor := Some (cursorOf (Suc i)), membersCursor := None\<rparr>"
    have step: "teamsLoop tm requery result c vars =
        teamsLoop tm True r (fold storeTeam (org ! i) c) ?vars"
      by (subst teamsLoop.simps) (simp add: inner tn rh re True)
    have k: "k = length org - Suc i" using Suc.hyps(2) by simp
    have "teamsLoop tm True r (fold storeTeam (org ! i) c) ?vars =
        Some (Inr (fold storeTeam (concat (drop (Suc i) org)) (fold storeTeam (org ! i) c)))"
      by (rule Suc.hyps(1) [OF k True]) (simp add: pageOf_cursorOf)
    then show ?thesis by (simp add: step dr)
  qed
qed

lemma GetCurrentConfig_served:
  assumes gq: "gqlQuery tm = serve org"
    and dist: "\<forall>page \<in> set org. distinct (map (team_ID \<circ> fst) page)"
  shows "GetCurrentConfig tm =
     Some (Inr (fold storeTeam (concat org)
       \<lparr>Organization = owner tm, Teams = [], Config_Members = Map.empty,
        ExcludeCRAFromAllTeams = []\<rparr>))"
proof (cases "org = []")
  case True
  then show ?thesis
    by (simp add: GetCurrentConfig_def gq serve_def pageOf_def)
      (subst teamsLoop.simps, simp)
next
  case False
  then have l: "0 < length org" by simp
  obtain result where r: "serve org \<lparr>teamsCursor = None, membersCursor = None\<rparr> = Inr result"
    by (simp add: serve_def)
  have "teamsLoop tm False result
      \<lparr>Organization = owner tm, Teams = [], Config_Members = Map.empty, ExcludeCRAFromAllTeams = []\<rparr>
      \<lparr>teamsCursor = None, membersCursor = None\<rparr> =
    Some (Inr (fold storeTeam (concat (drop 0 org))
      \<lparr>Organization = owner tm, Teams = [], Config_Members = Map.empty, ExcludeCRAFromAllTeams = []\<rparr>))"
    by (rule teamsLoop_served [OF gq dist l]) (simp add: r)
  then show ?thesis by (simp add: GetCurrentConfig_def gq r)
qed

lemma fold_addMember:
  "fst (fold addMember ms (tc, c)) =
     tc\<lparr>Members := (if ms = [] then Members tc
                     else Some (elems (Members tc) @ map member_Login ms))\<rparr> \<and>
   Teams (snd (fold addMember ms (tc, c))) = Teams c"
proof (induction ms arbitrary: tc c)
  case Nil
  then show ?case by simp
next
  case (Cons m ms)
  let ?tc = "tc\<lparr>Members := appendSlice (Members tc) (member_Login m)\<rparr>"
  let ?c = "c\<lparr>Config_Members := (Config_Members c)
              (member_Login m \<mapsto> \<lparr>User_ID = member_ID m, User_Name = member_Name m\<rparr>)\<rparr>"
  have s: "addMember m (tc, c) = (?tc, ?c)" by (simp add: addMember_def)
  show ?case
    using Cons.IH [of ?tc ?c] by (simp add: s appendSlice_def elems_def)
qed

lemma storePage_effect:
  "fst (storePage name ms (tc, c)) = tc\<lparr>Members := pageMembers ms (Members tc)\<rparr> \<and>
   Teams (snd (storePage name ms (tc, c))) =
     AList.update name (tc\<lparr>Members := pageMembers ms (Members tc)\<rparr>) (Teams c)"
proof -
  obtain tc1 c1 where f: "fold addMember ms (tc, c) = (tc1, c1)" by (cases "fold addMember ms (tc, c)")
  have "tc1 = tc\<lparr>Members := (if ms = [] then Members tc
                     else Some (elems (Members tc) @ map member_Login ms))\<rparr>"
    and "Teams c1 = Teams c"
    using fold_addMember [of ms tc c] by (simp_all add: f)
  then show ?thesis
    by (simp add: storePage_def f pageMembers_def sortStrings_def)
qed

lemma fold_storePage:
  "fst (fold (storePage name) pgs (tc, c)) = tc\<lparr>Members := fold pageMembers pgs (Members tc)\<rparr> \<and>
   Teams (snd (fold (storePage name) pgs (tc, c))) =
     (if pgs = [] then Teams c
      else AList.update name (tc\<lparr>Members := fold pageMembers pgs (Members tc)\<rparr>) (Teams c))"
proof (induction pgs arbitrary: tc c)
  case Nil
  then show ?case by simp
next
  case (Cons pg pgs)
  obtain tc1 c1 where s: "storePage name pg (tc, c) = (tc1, c1)" by (cases "storePage name pg (tc, c)")
  have tc1: "tc1 = tc\<lparr>Members := pageMembers pg (Members tc)\<rparr>"
    and c1: "Teams c1 = AList.update name tc1 (Teams c)"
    using storePage_effect [of name pg tc c] s by simp_all
  show ?case
    using Cons.IH [of tc1 c1] by (simp add: s c1) (simp add: tc1)
qed

lemma sort_sort_append: "sort (sort xs @ ys) = sort (xs @ ys)"
  by (rule properties_for_sort) simp_all

lemma pageMembers_Nil: "pageMembers [] m = map_option sort m"
  by (simp add: pageMembers_def)

lemma pageMembers_Cons: "pg \<noteq> [] \<Longrightarrow> pageMembers pg m = Some (sort (elems m @ map member_Login pg))"
  by (simp add: pageMembers_def)

lemma fold_pageMembers:
  "fold pageMembers pgs m =
     (if pgs = [] then m
      else if m = None \<and> concat pgs = [] then None
      else Some (sort (elems m @ map member_Login (concat pgs))))"
proof (induction pgs arbitrary: m)
  case Nil
  then show ?case by simp
next
  case (Cons pg pgs)
  show ?case
  proof (cases "pg = []")
    case True
    then show ?thesis
      by (cases m) (simp_all add: Cons.IH pageMembers_Nil elems_def sort_sort_append)
  next
    case False
    then show ?thesis
      by (simp add: Cons.IH pageMembers_Cons elems_def sort_sort_append)
  qed
qed

lemma update_new_key: "k \<notin> fst ` set al \<Longrightarrow> AList.update k v al = al @ [(k, v)]"
  by (induction al) auto

lemma storeTeam_new:
  assumes "team_Name (fst td) \<notin> fst ` set (Teams c)"
  shows "Teams (storeTeam td c) = Teams c @ [(team_Name (fst td), snapshotTeam td)]"
proof -
  have n: "map_of (Teams c) (team_Name (fst td)) = None"
    using assms by (simp add: map_of_eq_None_iff)
  have ne: "servedPages (snd td) \<noteq> []" and cc: "concat (servedPages (snd td)) = concat (snd td)"
    by (simp_all add: servedPages_def)
  have m: "fold pageMembers (servedPages (snd td)) (Members (newTeamConfig (fst td))) =
      (if concat (snd td) = [] then None else Some (sort (map member_Login (concat (snd td)))))"
    by (simp add: fold_pageMembers ne cc newTeamConfig_def elems_def del: map_concat)
  show ?thesis
    using fold_storePage [of "team_Name (fst td)" "servedPages (snd td)" "newTeamConfig (fst td)" c]
    by (simp add: storeTeam_def n ne m snapshotTeam_def update_new_key [OF assms] del: map_concat)
qed

lemma fold_storeTeam:
  "distinct (map (team_Name \<circ> fst) tds) \<Longrightarrow>
   (team_Name \<circ> fst) ` set tds \<inter> fst ` set (Teams c) = {} \<Longrightarrow>
   Teams (fold storeTeam tds c) = Teams c @ map (\<lambda>td. (team_Name (fst td), snapshotTeam td)) tds"
proof (induction tds arbitrary: c)
  case Nil
  then show ?case by simp
next
  case (Cons td tds)
  from Cons.prems have new: "team_Name (fst td) \<notin> fst ` set (Teams c)" by auto
  have t: "Teams (storeTeam td c) = Teams c @ [(team_Name (fst td), snapshotTeam td)]"
    by (rule storeTeam_new [OF new])
  have 1: "(team_Name \<circ> fst) ` set tds \<inter> fst ` set (Teams (storeTeam td c)) = {}"
    using Cons.prems by (auto simp: t)
  from Cons.prems(1) have 2: "distinct (map (team_Name \<circ> fst) tds)" by (simp add: comp_def)
  have "Teams (fold storeTeam tds (storeTeam td c)) =
      Teams (storeTeam td c) @ map (\<lambda>td. (team_Name (fst td), snapshotTeam td)) tds"
    by (rule Cons.IH [OF 2 1])
  then show ?case by (simp add: t)
qed

text \<open>
  Claim C5. Whatever the page boundaries are, the fetch ends and returns a snapshot in
  which every team of the organization stands once, under its name, with all the logins
  of all its member pages (sorted). The client gets the right member pages only
  because it sends the null member cursor with each new team cursor: the server picks
  the member page from the member cursor of the query.
\<close>

theorem fetch_assembles_all_pages:
  assumes "gqlQuery tm = serve org"
    and "\<forall>page \<in> set org. distinct (map (team_ID \<circ> fst) page)"
    and "distinct (map (team_Name \<circ> fst) (concat org))"
  shows "\<exists>c. GetCurrentConfig tm = Some (Inr c) \<and>
           Teams c = map (\<lambda>td. (team_Name (fst td), snapshotTeam td)) (concat org) \<and>
           distinct (map fst (Teams c)) \<and>
           (\<forall>td \<in> set (concat org).
              set (elems (Members (teamAt (Teams c) (team_Name (fst td))))) =
                member_Login ` set (concat (snd td)))"
proof -
  let ?init = "\<lparr>Organization = owner tm, Teams = [], Config_Members = Map.empty,
        ExcludeCRAFromAllTeams = []\<rparr>"
  let ?c = "fold storeTeam (concat org) ?init"
  have g: "GetCurrentConfig tm = Some (Inr ?c)"
    by (rule GetCurrentConfig_served [OF assms(1,2)])
  have t: "Teams ?c = map (\<lambda>td. (team_Name (fst td), snapshotTeam td)) (concat org)"
    using fold_storeTeam [OF assms(3), of ?init] by simp
  have d: "distinct (map fst (Teams ?c))"
    using assms(3) by (simp add: t comp_def)
  have m: "set (elems (Members (teamAt (Teams ?c) (team_Name (fst td))))) =
      member_Login ` set (concat (snd td))" if td: "td \<in> set (concat org)" for td
  proof -
    have "(team_Name (fst td), snapshotTeam td) \<in> set (Teams ?c)"
      using td unfolding t by (simp add: image_iff) blast
    then have "map_of (Teams ?c) (team_Name (fst td)) = Some (snapshotTeam td)"
      using d by simp
    then have "teamAt (Teams ?c) (team_Name (fst td)) = snapshotTeam td"
      by (simp add: teamAt_def)
    then show ?thesis
      by (simp add: snapshotTeam_def elems_def del: map_concat set_concat)
  qed
  show ?thesis
    using g t d m by blast
qed

theorem fetch_assembles_all_pages_witness:
  "gqlQuery (exampleManager (\<lambda>w c. None)) = serve exampleOrg \<and>
   list_all (\<lambda>page. distinct (map (team_ID \<circ> fst) page)) exampleOrg \<and>
   distinct (map (team_Name \<circ> fst) (concat exampleOrg)) \<and>
   (\<exists>c. GetCurrentConfig (exampleManager (\<lambda>w c. None)) = Some (Inr c) \<and>
        Teams c =
          [(''ops'', \<lparr>ID = ''T1'', Members = Some [''b'', ''c''],
              CodeReviewAssignment = zeroCodeReviewAssignment\<rparr>),
           (''dev'', \<lparr>ID = ''T2'', Members = Some [''x''],
              CodeReviewAssignment = zeroCodeReviewAssignment\<rparr>)])"
proof -
  have 1: "gqlQuery (exampleManager (\<lambda>w c. None)) = serve exampleOrg"
    by (simp add: exampleManager_def)
  have 2: "\<forall>page \<in> set exampleOrg. distinct (map (team_ID \<circ> fst) page)"
    by (simp add: exampleOrg_def)
  have 3: "distinct (map (team_Name \<circ> fst) (concat exampleOrg))"
    by (simp add: exampleOrg_def exampleTeam_def)
  obtain c where g: "GetCurrentConfig (exampleManager (\<lambda>w c. None)) = Some (Inr c)"
    and t: "Teams c = map (\<lambda>td. (team_Name (fst td), snapshotTeam td)) (concat exampleOrg)"
    using fetch_assembles_all_pages [OF 1 2 3] by blast
  have v: "map (\<lambda>td. (team_Name (fst td), snapshotTeam td)) (concat exampleOrg) =
      [(''ops'', \<lparr>ID = ''T1'', Members = Some [''b'', ''c''],
          CodeReviewAssignment = zeroCodeReviewAssignment\<rparr>),
       (''dev'', \<lparr>ID = ''T2'', Members = Some [''x''],
          CodeReviewAssignment = zeroCodeReviewAssignment\<rparr>)]"
    by (simp add: exampleOrg_def exampleTeam_def exampleMember_def snapshotTeam_def
        newTeamConfig_def)
  have e: "\<exists>c. GetCurrentConfig (exampleManager (\<lambda>w c. None)) = Some (Inr c) \<and>
        Teams c =
          [(''ops'', \<lparr>ID = ''T1'', Members = Some [''b'', ''c''],
              CodeReviewAssignment = zeroCodeReviewAssignment\<rparr>),
           (''dev'', \<lparr>ID = ''T2'', Members = Some [''x''],
              CodeReviewAssignment = zeroCodeReviewAssignment\<rparr>)]"
    by (rule exI [of _ c]) (simp only: g t v simp_thms)
  have 4: "list_all (\<lambda>page. distinct (map (team_ID \<circ> fst) page)) exampleOrg"
    using 2 by (simp add: list_all_iff)
  show ?thesis
    by (rule conjI [OF 1 conjI [OF 4 conjI [OF 3 e]]])
qed

end
